theory Spec2Isabelle
  imports Complex_Main
begin

section \<open>Delete Ungrouped Elements: collecting the ids to delete\<close>

text \<open>
  The host's elements are read through three attributes only: \<open>Id\<close>, \<open>GroupId\<close> and
  \<open>Category\<close>. An \<open>ElementId\<close> is its integer value; \<open>InvalidElementId\<close> is the
  host's constant \<open>-1\<close>. A Python reference that may be \<open>None\<close> is an \<open>option\<close>.
\<close>

datatype category_type = Invalid | Model | Annotation | Internal | AnalyticalModel

record category =
  CategoryType :: category_type
  cat_Id :: int

record element =
  elem_Id :: int
  GroupId :: int
  Category :: "category option"

definition InvalidElementId :: int where
  "InvalidElementId = - 1"

text \<open>\<open>is_ungrouped(elem)\<close>: \<open>elem is not None and elem.GroupId == InvalidElementId\<close>.\<close>

definition is_ungrouped :: "element option \<Rightarrow> bool" where
  "is_ungrouped elem =
     (case elem of None \<Rightarrow> False | Some e \<Rightarrow> GroupId e = InvalidElementId)"

text \<open>
  \<open>is_symbol_like(elem)\<close>. The two built-in category numbers are constants of the host,
  passed in as \<open>detail_components\<close> and \<open>repeating_detail\<close>.
\<close>

definition is_symbol_like :: "int \<Rightarrow> int \<Rightarrow> element option \<Rightarrow> bool" where
  "is_symbol_like detail_components repeating_detail elem =
     (case (case elem of None \<Rightarrow> None | Some e \<Rightarrow> Category e) of
        None \<Rightarrow> False
      | Some cat \<Rightarrow>
          if CategoryType cat = Annotation then True
          else cat_Id cat = detail_components \<or> cat_Id cat = repeating_detail)"

text \<open>
  \<open>add_ungrouped_ids(elements, ids)\<close>: the loop adds to the set \<open>ids\<close> in place and
  returns the count; the model returns the updated set beside the count.
\<close>

fun add_ungrouped_loop :: "element option list \<Rightarrow> int set \<Rightarrow> nat \<Rightarrow> int set \<times> nat" where
  "add_ungrouped_loop [] ids count = (ids, count)"
| "add_ungrouped_loop (elem # rest) ids count =
     (case elem of
        None \<Rightarrow> add_ungrouped_loop rest ids count
      | Some e \<Rightarrow>
          if is_ungrouped elem \<and> elem_Id e \<notin> ids
          then add_ungrouped_loop rest (insert (elem_Id e) ids) (count + 1)
          else add_ungrouped_loop rest ids count)"

definition add_ungrouped_ids :: "element option list \<Rightarrow> int set \<Rightarrow> int set \<times> nat" where
  "add_ungrouped_ids elements ids = add_ungrouped_loop elements ids 0"

text \<open>
  What the eight element collectors of the script return for the open document, in the
  order the script runs them.
\<close>

record ungrouped_collected =
  curve_elements :: "element option list"
  filled_regions :: "element option list"
  independent_tags :: "element option list"
  areas :: "element option list"
  rooms :: "element option list"
  masking_regions :: "element option list"
  text_notes :: "element option list"
  family_instances :: "element option list"

text \<open>The eight passes of the script over the one set \<open>ids_to_delete\<close>, with their counts.\<close>

definition ids_to_delete :: "int \<Rightarrow> int \<Rightarrow> ungrouped_collected \<Rightarrow> int set \<times> nat list" where
  "ids_to_delete detail_components repeating_detail c =
     (let (s1, line_count) = add_ungrouped_ids (curve_elements c) {};
          (s2, filled_region_count) = add_ungrouped_ids (filled_regions c) s1;
          (s3, tag_count) = add_ungrouped_ids (independent_tags c) s2;
          (s4, area_count) = add_ungrouped_ids (areas c) s3;
          (s5, room_count) = add_ungrouped_ids (rooms c) s4;
          (s6, mask_count) = add_ungrouped_ids (masking_regions c) s5;
          (s7, text_note_count) = add_ungrouped_ids (text_notes c) s6;
          symbols = filter (is_symbol_like detail_components repeating_detail)
                      (family_instances c);
          (s8, symbol_count) = add_ungrouped_ids symbols s7
      in (s8, [line_count, filled_region_count, tag_count, area_count, room_count,
               mask_count, text_note_count, symbol_count]))"

text \<open>Every element the eight collectors returned.\<close>

definition collected_elements :: "ungrouped_collected \<Rightarrow> element option list" where
  "collected_elements c =
     curve_elements c @ filled_regions c @ independent_tags c @ areas c @ rooms c @
     masking_regions c @ text_notes c @ family_instances c"

section \<open>Text\<close>

text \<open>
  The print script runs on IronPython, whose strings are sequences of UTF-16 code units;
  a string is modelled as the list of its code units. \<open>U\<close> turns an ASCII literal into
  such a list.
\<close>

type_synonym ustr = "nat list"

definition U :: "string \<Rightarrow> ustr" where
  "U s = map of_char s"

text \<open>
  \<open>str.lower()\<close>, character by character. Only the ASCII capitals are mapped; the
  suffix tests below compare with ASCII literals, and no character outside ASCII
  lowers to an ASCII letter of those literals.
\<close>

definition lower_char :: "nat \<Rightarrow> nat" where
  "lower_char c = (if 65 \<le> c \<and> c \<le> 90 then c + 32 else c)"

definition lower :: "ustr \<Rightarrow> ustr" where
  "lower s = map lower_char s"

text \<open>\<open>s.endswith(suffix)\<close>.\<close>

definition endswith :: "ustr \<Rightarrow> ustr \<Rightarrow> bool" where
  "endswith s suffix =
     (length suffix \<le> length s \<and> drop (length s - length suffix) s = suffix)"

section \<open>File-name extensions\<close>

datatype py_error = AttributeError | Exception string

text \<open>
  \<open>NamingFormat.verify_template(value)\<close>. A value that is \<open>None\<close> has no
  \<open>lower\<close> method: the call raises.
\<close>

definition verify_template :: "ustr option \<Rightarrow> py_error + ustr" where
  "verify_template value =
     (case value of
        None \<Rightarrow> Inl AttributeError
      | Some v \<Rightarrow>
          if \<not> endswith (lower v) (U ''.pdf'') then Inr (v @ U ''.pdf'') else Inr v)"

text \<open>
  \<open>PrintSheetsWindow._ensure_pdf_extension(value)\<close>; \<open>value[:-4]\<close> drops the last
  four characters.
\<close>

definition ensure_pdf_extension :: "ustr option \<Rightarrow> ustr option" where
  "ensure_pdf_extension value =
     (case value of
        None \<Rightarrow> None
      | Some v \<Rightarrow>
          if v = [] then Some v
          else
            let val_lower = lower v;
                v1 = (if endswith val_lower (U ''.dwg'') then take (length v - 4) v else v);
                val_lower1 = (if endswith val_lower (U ''.dwg'') then lower v1 else val_lower)
            in if \<not> endswith val_lower1 (U ''.pdf'') then Some (v1 @ U ''.pdf'')
               else Some v1)"

section \<open>The print scheduler\<close>

text \<open>
  A \<open>DateTime\<close> is its number of ticks (100 ns each), an integer. A \<open>ScheduledJob\<close>
  object is created with \<open>IsRunning = False\<close> and no reminder shown.
\<close>

record ScheduledJob =
  RunAt :: int
  TargetSheets :: "nat list"
  IsRunning :: bool
  RemindersShown :: "int set"

definition ScheduledJob_init :: "int \<Rightarrow> nat list \<Rightarrow> ScheduledJob" where
  "ScheduledJob_init run_at target_sheets =
     \<lparr>RunAt = run_at, TargetSheets = target_sheets, IsRunning = False,
      RemindersShown = {}\<rparr>"

text \<open>
  \<open>int(x)\<close> of a float truncates towards zero. \<open>TimeSpan.TotalSeconds\<close> is the tick
  count divided by ten million; the value is kept as a rational number, which every
  finite float is.
\<close>

definition py_int :: "rat \<Rightarrow> int" where
  "py_int x = (if 0 \<le> x then \<lfloor>x\<rfloor> else \<lceil>x\<rceil>)"

definition TotalSeconds :: "int \<Rightarrow> rat" where
  "TotalSeconds ticks = of_int ticks / 10000000"

text \<open>\<open>PrintScheduler._get_due_reminder_mark(job, remaining_seconds)\<close>.\<close>

definition get_due_reminder_mark :: "ScheduledJob \<Rightarrow> rat \<Rightarrow> int option" where
  "get_due_reminder_mark job remaining_seconds =
     (if remaining_seconds \<le> 0 then None
      else
        let remaining_int = py_int remaining_seconds in
        if remaining_int \<le> 0 then None
        else if remaining_int \<le> 10 then
          (if remaining_int \<notin> RemindersShown job then Some remaining_int else None)
        else if remaining_int \<le> 60 then
          (let mark0 = ((remaining_int + 9) div 10) * 10;
               mark1 = (if mark0 < 20 then 20 else mark0);
               mark = (if mark1 > 60 then 60 else mark1)
           in if mark \<notin> RemindersShown job then Some mark else None)
        else if remaining_int \<le> 300 \<and> 300 \<notin> RemindersShown job then Some 300
        else None)"

text \<open>
  \<open>PrintScheduler._handle_reminders(job)\<close>, with the clock reading \<open>DateTime.Now\<close>
  passed in. The result is the job with the mark recorded, and the mark whose message
  was shown, if one was. \<open>if not mark\<close> is true for \<open>None\<close> and for \<open>0\<close>.
\<close>

definition handle_reminders :: "ScheduledJob \<Rightarrow> int \<Rightarrow> ScheduledJob \<times> int option" where
  "handle_reminders job now =
     (let remaining_seconds = TotalSeconds (RunAt job - now);
          mark = get_due_reminder_mark job remaining_seconds
      in case mark of
           None \<Rightarrow> (job, None)
         | Some m \<Rightarrow>
             if m = 0 then (job, None)
             else (job\<lparr>RemindersShown := insert m (RemindersShown job)\<rparr>, Some m))"

text \<open>
  The scheduler and what it acts on. \<open>jobs\<close> holds every \<open>ScheduledJob\<close> object
  created so far; a reference to a job is its index there. \<open>job_ref\<close> is the
  scheduler's field \<open>_job\<close>. \<open>reminders\<close> lists the reminder messages shown (job, mark)
  and \<open>print_runs\<close> the calls of \<open>_run_print\<close>: the job, and the clock reading that
  let it through.
\<close>

record PrintScheduler =
  jobs :: "ScheduledJob list"
  job_ref :: "nat option"
  reminders :: "(nat \<times> int) list"
  print_runs :: "(nat \<times> int) list"

definition PrintScheduler_init :: PrintScheduler where
  "PrintScheduler_init = \<lparr>jobs = [], job_ref = None, reminders = [], print_runs = []\<rparr>"

definition set_job :: "nat option \<Rightarrow> PrintScheduler \<Rightarrow> PrintScheduler" where
  "set_job job s = s\<lparr>job_ref := job\<rparr>"

definition cancel_job :: "PrintScheduler \<Rightarrow> PrintScheduler" where
  "cancel_job s = s\<lparr>job_ref := None\<rparr>"

text \<open>
  \<open>PrintScheduler._process_schedule()\<close>. \<open>now\<close> is the clock reading compared with
  \<open>RunAt\<close>, \<open>now_reminder\<close> the later reading taken by \<open>_handle_reminders\<close>. The flag
  is set and the slot cleared before \<open>_run_print\<close> is called; what \<open>_run_print\<close> does
  afterwards, and whether it raises, leaves the scheduler as it is, so a handler that
  runs while the print is under way sees the slot already empty. A reference always
  points to a created object: the first test is never true in a run.
\<close>

definition process_schedule :: "int \<Rightarrow> int \<Rightarrow> PrintScheduler \<Rightarrow> PrintScheduler" where
  "process_schedule now now_reminder s =
     (case job_ref s of
        None \<Rightarrow> s
      | Some r \<Rightarrow>
          if length (jobs s) \<le> r then s
          else
            let job = jobs s ! r in
            if IsRunning job then s
            else if now < RunAt job then
              (let (job', shown) = handle_reminders job now_reminder
               in s\<lparr>jobs := (jobs s)[r := job'],
                     reminders := reminders s @
                       (case shown of None \<Rightarrow> [] | Some m \<Rightarrow> [(r, m)])\<rparr>)
            else
              s\<lparr>jobs := (jobs s)[r := job\<lparr>IsRunning := True\<rparr>],
                job_ref := None,
                print_runs := print_runs s @ [(r, now)]\<rparr>)"

text \<open>
  What reaches the scheduler: \<open>schedule_print\<close> (the only caller of \<open>set_job\<close>, always
  with a job it has just created), \<open>cancel_schedule\<close>, and the two handlers
  \<open>on_idling\<close> and \<open>on_timer_tick\<close>.
\<close>

datatype event =
    SchedulePrint int "nat list"
  | CancelSchedule
  | Idling int int
  | TimerTick int int

definition schedule_print :: "int \<Rightarrow> nat list \<Rightarrow> PrintScheduler \<Rightarrow> PrintScheduler" where
  "schedule_print run_at target_sheets s =
     set_job (Some (length (jobs s)))
       (s\<lparr>jobs := jobs s @ [ScheduledJob_init run_at target_sheets]\<rparr>)"

definition on_idling :: "int \<Rightarrow> int \<Rightarrow> PrintScheduler \<Rightarrow> PrintScheduler" where
  "on_idling now now_reminder s = process_schedule now now_reminder s"

definition on_timer_tick :: "int \<Rightarrow> int \<Rightarrow> PrintScheduler \<Rightarrow> PrintScheduler" where
  "on_timer_tick now now_reminder s = process_schedule now now_reminder s"

fun step :: "PrintScheduler \<Rightarrow> event \<Rightarrow> PrintScheduler" where
  "step s (SchedulePrint run_at target_sheets) = schedule_print run_at target_sheets s"
| "step s CancelSchedule = cancel_job s"
| "step s (Idling now now_reminder) = on_idling now now_reminder s"
| "step s (TimerTick now now_reminder) = on_timer_tick now now_reminder s"

definition run_events :: "event list \<Rightarrow> PrintScheduler" where
  "run_events evs = foldl step PrintScheduler_init evs"

text \<open>
  What holds in every state the scheduler reaches: a job in the slot is the last one
  created and has never been dispatched, and every dispatched job carries the flag and
  was let through at or after its \<open>RunAt\<close>.
\<close>

definition sched_inv :: "PrintScheduler \<Rightarrow> bool" where
  "sched_inv s =
     ((case job_ref s of
         None \<Rightarrow> True
       | Some r \<Rightarrow> Suc r = length (jobs s) \<and> \<not> IsRunning (jobs s ! r) \<and>
                   r \<notin> fst ` set (print_runs s)) \<and>
      list_all (\<lambda>(r, t). r < length (jobs s) \<and> IsRunning (jobs s ! r) \<and>
                         RunAt (jobs s ! r) \<le> t) (print_runs s) \<and>
      distinct (map fst (print_runs s)))"

text \<open>
  Every reminder shown is recorded in its job's \<open>RemindersShown\<close>, and no reminder was
  shown twice.
\<close>

definition reminders_inv :: "PrintScheduler \<Rightarrow> bool" where
  "reminders_inv s =
     (list_all (\<lambda>(r, m). r < length (jobs s) \<and> m \<in> RemindersShown (jobs s ! r))
        (reminders s) \<and>
      distinct (reminders s))"

text \<open>The \<open>RunAt\<close> times handed to \<open>schedule_print\<close>, in the order of the calls.\<close>

fun scheduled_times :: "event list \<Rightarrow> int list" where
  "scheduled_times [] = []"
| "scheduled_times (SchedulePrint run_at target_sheets # evs) = run_at # scheduled_times evs"
| "scheduled_times (e # evs) = scheduled_times evs"

section \<open>The three cleanup scripts\<close>

text \<open>
  A script acts on the host through calls; a run of a script is the list of the calls
  it makes, in order. The document changes through \<open>doc.Delete\<close> only. What the host
  returns (the collected elements, the button pressed in the dialog) is an argument of
  the script.
\<close>

datatype TaskDialogResult = Yes | No | Cancel | Close | NoResult

datatype dialog =
    NoActiveDocument
  | NothingFound
  | Confirm "nat list"

datatype host_call =
    TaskDialogShow dialog
  | ScriptExit
  | TransactionStart string
  | DocDelete "int set"
  | TransactionCommit

text \<open>
  Clean Design Options: the ids of the design options and of the design option sets;
  \<open>has_doc\<close> says that \<open>revit.doc\<close> is not \<open>None\<close>.
\<close>

definition clean_design_options ::
  "bool \<Rightarrow> int list \<Rightarrow> int list \<Rightarrow> TaskDialogResult \<Rightarrow> host_call list" where
  "clean_design_options has_doc option_ids set_ids res =
     (if \<not> has_doc then [TaskDialogShow NoActiveDocument, ScriptExit]
      else if option_ids = [] \<and> set_ids = [] then [TaskDialogShow NothingFound, ScriptExit]
      else if res \<noteq> Yes then
        [TaskDialogShow (Confirm [length set_ids, length option_ids]), ScriptExit]
      else
        [TaskDialogShow (Confirm [length set_ids, length option_ids]),
         TransactionStart ''Clean Design Options'',
         DocDelete (set (option_ids @ set_ids)),
         TransactionCommit])"

text \<open>
  Delete Detail Lines Groups. The two category numbers are constants of the host.
\<close>

definition is_detail_group :: "int \<Rightarrow> category option \<Rightarrow> bool" where
  "is_detail_group ost_detail_groups cat =
     (case cat of None \<Rightarrow> False | Some c \<Rightarrow> cat_Id c = ost_detail_groups)"

definition is_model_group :: "int \<Rightarrow> category option \<Rightarrow> bool" where
  "is_model_group ost_model_groups cat =
     (case cat of None \<Rightarrow> False | Some c \<Rightarrow> cat_Id c = ost_model_groups)"

record detail_collected =
  detail_curve_ids :: "int list"
  group_instances :: "element list"
  group_types :: "element list"

text \<open>The two loops that add the group instances and the group types to the set.\<close>

definition add_group_ids :: "int \<Rightarrow> int \<Rightarrow> element list \<Rightarrow> int set \<Rightarrow> int set" where
  "add_group_ids ost_detail_groups ost_model_groups gs ids =
     foldl (\<lambda>acc g.
        if is_detail_group ost_detail_groups (Category g) \<or>
           is_model_group ost_model_groups (Category g)
        then insert (elem_Id g) acc else acc) ids gs"

definition detail_ids_to_delete :: "int \<Rightarrow> int \<Rightarrow> detail_collected \<Rightarrow> int set" where
  "detail_ids_to_delete ost_detail_groups ost_model_groups c =
     add_group_ids ost_detail_groups ost_model_groups (group_types c)
       (add_group_ids ost_detail_groups ost_model_groups (group_instances c)
          (set (detail_curve_ids c)))"

definition delete_detail_lines_groups ::
  "bool \<Rightarrow> int \<Rightarrow> int \<Rightarrow> detail_collected \<Rightarrow> TaskDialogResult \<Rightarrow> host_call list" where
  "delete_detail_lines_groups has_doc ost_detail_groups ost_model_groups c res =
     (if \<not> has_doc then [TaskDialogShow NoActiveDocument, ScriptExit]
      else
        let detail_group_instance_count =
              length (filter (\<lambda>g. is_detail_group ost_detail_groups (Category g))
                        (group_instances c));
            model_group_instance_count =
              length (filter (\<lambda>g. is_model_group ost_model_groups (Category g))
                        (group_instances c));
            detail_group_type_count =
              length (filter (\<lambda>g. is_detail_group ost_detail_groups (Category g))
                        (group_types c));
            model_group_type_count =
              length (filter (\<lambda>g. is_model_group ost_model_groups (Category g))
                        (group_types c));
            ids = detail_ids_to_delete ost_detail_groups ost_model_groups c;
            msg = Confirm [length (detail_curve_ids c), detail_group_instance_count,
                           model_group_instance_count, detail_group_type_count,
                           model_group_type_count]
        in if ids = {} then [TaskDialogShow NothingFound, ScriptExit]
           else if res \<noteq> Yes then [TaskDialogShow msg, ScriptExit]
           else [TaskDialogShow msg,
                 TransactionStart ''Delete Detail Lines and Groups'',
                 DocDelete ids,
                 TransactionCommit])"

text \<open>Delete Ungrouped Elements, after the eight passes of \<open>ids_to_delete\<close>.\<close>

definition delete_ungrouped_elements ::
  "bool \<Rightarrow> int \<Rightarrow> int \<Rightarrow> ungrouped_collected \<Rightarrow> TaskDialogResult \<Rightarrow> host_call list" where
  "delete_ungrouped_elements has_doc detail_components repeating_detail c res =
     (if \<not> has_doc then [TaskDialogShow NoActiveDocument, ScriptExit]
      else
        let (ids, counts) = ids_to_delete detail_components repeating_detail c
        in if ids = {} then [TaskDialogShow NothingFound, ScriptExit]
           else if res \<noteq> Yes then [TaskDialogShow (Confirm counts), ScriptExit]
           else [TaskDialogShow (Confirm counts),
                 TransactionStart ''Delete Ungrouped Elements'',
                 DocDelete ids,
                 TransactionCommit])"

text \<open>
  The document after a run: \<open>host_delete\<close> is what the host's \<open>doc.Delete\<close> does to
  the document; no other call changes it.
\<close>

fun apply_calls :: "(int set \<Rightarrow> 'doc \<Rightarrow> 'doc) \<Rightarrow> host_call list \<Rightarrow> 'doc \<Rightarrow> 'doc" where
  "apply_calls host_delete [] doc = doc"
| "apply_calls host_delete (DocDelete ids # calls) doc =
     apply_calls host_delete calls (host_delete ids doc)"
| "apply_calls host_delete (call # calls) doc = apply_calls host_delete calls doc"

text \<open>
  Reading a run: \<open>tx_scan\<close> walks the calls and accepts when every \<open>doc.Delete\<close>
  lies between a \<open>Start\<close> and its \<open>Commit\<close>, at most one transaction is started, and
  the transaction is started only after the confirmation dialog was shown.
\<close>

fun tx_scan :: "bool \<Rightarrow> bool \<Rightarrow> nat \<Rightarrow> host_call list \<Rightarrow> bool" where
  "tx_scan confirmed inside started [] = (\<not> inside \<and> started \<le> 1)"
| "tx_scan confirmed inside started (TaskDialogShow (Confirm counts) # calls) =
     tx_scan True inside started calls"
| "tx_scan confirmed inside started (TransactionStart name # calls) =
     (confirmed \<and> \<not> inside \<and> started = 0 \<and> tx_scan confirmed True (Suc started) calls)"
| "tx_scan confirmed inside started (DocDelete ids # calls) =
     (inside \<and> tx_scan confirmed inside started calls)"
| "tx_scan confirmed inside started (TransactionCommit # calls) =
     (inside \<and> tx_scan confirmed False started calls)"
| "tx_scan confirmed inside started (call # calls) = tx_scan confirmed inside started calls"

definition single_confirmed_transaction :: "host_call list \<Rightarrow> bool" where
  "single_confirmed_transaction calls = tx_scan False False 0 calls"

fun is_TransactionStart :: "host_call \<Rightarrow> bool" where
  "is_TransactionStart (TransactionStart name) = True"
| "is_TransactionStart call = False"

fun is_DocDelete :: "host_call \<Rightarrow> bool" where
  "is_DocDelete (DocDelete ids) = True"
| "is_DocDelete call = False"

definition starts_transaction :: "host_call list \<Rightarrow> bool" where
  "starts_transaction calls = list_ex is_TransactionStart calls"

definition modifies_document :: "host_call list \<Rightarrow> bool" where
  "modifies_document calls = list_ex is_DocDelete calls"

section \<open>Text normalisation\<close>

text \<open>
  The characters \<open>str.strip()\<close> removes from a Unicode string: the characters Python
  regards as white space. U+FEFF (the byte order mark) and U+200E are not among them.
\<close>

definition is_space :: "nat \<Rightarrow> bool" where
  "is_space c =
     ((9 \<le> c \<and> c \<le> 13) \<or> (28 \<le> c \<and> c \<le> 32) \<or> c = 133 \<or> c = 160 \<or> c = 5760 \<or>
      c = 6158 \<or> (8192 \<le> c \<and> c \<le> 8202) \<or> c = 8232 \<or> c = 8233 \<or> c = 8239 \<or>
      c = 8287 \<or> c = 12288)"

definition strip :: "ustr \<Rightarrow> ustr" where
  "strip s = rev (dropWhile is_space (rev (dropWhile is_space s)))"

definition BOM :: nat where
  "BOM = 65279"

text \<open>\<open>s.lstrip(BOM)\<close>, the argument being the one character U+FEFF.\<close>

definition lstrip_BOM :: "ustr \<Rightarrow> ustr" where
  "lstrip_BOM s = dropWhile (\<lambda>c. c = BOM) s"

text \<open>
  \<open>normalize_match_text(value)\<close> for a value that is \<open>None\<close> or a string. The
  canonical composition \<open>unicodedata.normalize('NFC', text)\<close> belongs to the Python
  library; it is the argument \<open>nfc\<close> of every function that normalises.
\<close>

definition normalize_match_text :: "(ustr \<Rightarrow> ustr) \<Rightarrow> ustr option \<Rightarrow> ustr" where
  "normalize_match_text nfc value =
     (case value of None \<Rightarrow> [] | Some text \<Rightarrow> nfc (lstrip_BOM (strip text)))"

section \<open>The print ledger as a CSV file\<close>

text \<open>
  \<open>ExcelDatabase._to_text(value)\<close> for a value that is \<open>None\<close> or a string. The
  script runs on IronPython 2, where \<open>str\<close> is \<open>unicode\<close>: every string leaves
  \<open>_to_text\<close> at its first test, as it is, and so does a cell that \<open>csv.reader\<close>
  yields for a file opened \<open>'rb'\<close>, whose characters are the bytes of the file.
\<close>

definition to_text :: "ustr option \<Rightarrow> ustr" where
  "to_text value = (case value of None \<Rightarrow> [] | Some text \<Rightarrow> text)"

record ExcelPrintRow =
  PrintFileName :: ustr
  DrawingName :: ustr
  DrawingNumber :: ustr

definition HEADER_FILE_NAME :: ustr where
  "HEADER_FILE_NAME = U ''Printed File Name''"

definition HEADER_DRAWING_NAME :: ustr where
  "HEADER_DRAWING_NAME = U ''Drawing Name''"

definition HEADER_DRAWING_NUMBER :: ustr where
  "HEADER_DRAWING_NUMBER = U ''Drawing Number''"

text \<open>
  A CSV file is the list of rows that \<open>csv.reader\<close> yields for it, each row the list
  of its cells; the file system maps a path to the file stored there. What
  \<open>csv.writer\<close> writes, \<open>csv.reader\<close> is taken to read back.
\<close>

type_synonym csv_file = "ustr list list"

type_synonym file_system = "ustr \<Rightarrow> csv_file option"

text \<open>The loop that fills the dictionary \<open>headers\<close> from the enumerated header row.\<close>

fun build_headers :: "nat \<Rightarrow> ustr list \<Rightarrow> (ustr \<rightharpoonup> nat) \<Rightarrow> (ustr \<rightharpoonup> nat)" where
  "build_headers idx [] headers = headers"
| "build_headers idx (val # rest) headers =
     (let key = lstrip_BOM (strip (to_text (Some val)))
      in if key \<noteq> [] \<and> headers key = None
         then build_headers (idx + 1) rest (headers(key \<mapsto> idx))
         else build_headers (idx + 1) rest headers)"

text \<open>\<open>headers.get(key, default)\<close>.\<close>

definition dict_get :: "(ustr \<rightharpoonup> nat) \<Rightarrow> ustr \<Rightarrow> nat \<Rightarrow> nat" where
  "dict_get headers key dflt = (case headers key of None \<Rightarrow> dflt | Some idx \<Rightarrow> idx)"

text \<open>The local function \<open>safe_get(col_idx)\<close> of the row loop.\<close>

definition safe_get :: "ustr list \<Rightarrow> nat \<Rightarrow> ustr" where
  "safe_get row col_idx =
     (if length row \<le> col_idx then [] else strip (to_text (Some (row ! col_idx))))"

text \<open>The loop over \<open>rows[1:]\<close>, appending to \<open>result\<close>.\<close>

fun read_rows_loop ::
  "(ustr \<Rightarrow> ustr) \<Rightarrow> nat \<Rightarrow> nat \<Rightarrow> nat \<Rightarrow> ustr list list \<Rightarrow> ExcelPrintRow list \<Rightarrow>
   ExcelPrintRow list" where
  "read_rows_loop nfc col_file_name col_drawing_name col_drawing_number [] result = result"
| "read_rows_loop nfc col_file_name col_drawing_name col_drawing_number (row # rest) result =
     (if row = [] then
        read_rows_loop nfc col_file_name col_drawing_name col_drawing_number rest result
      else
        let drawing_name = normalize_match_text nfc (Some (safe_get row col_drawing_name))
        in if drawing_name = [] then
             read_rows_loop nfc col_file_name col_drawing_name col_drawing_number rest result
           else
             let file_name = safe_get row col_file_name;
                 drawing_number =
                   normalize_match_text nfc (Some (safe_get row col_drawing_number))
             in read_rows_loop nfc col_file_name col_drawing_name col_drawing_number rest
                  (result @ [\<lparr>PrintFileName = file_name, DrawingName = drawing_name,
                              DrawingNumber = drawing_number\<rparr>]))"

text \<open>\<open>ExcelDatabase._read_print_rows_csv(path)\<close>.\<close>

definition read_print_rows_csv ::
  "(ustr \<Rightarrow> ustr) \<Rightarrow> file_system \<Rightarrow> ustr \<Rightarrow> ExcelPrintRow list" where
  "read_print_rows_csv nfc fs path =
     (case fs path of
        None \<Rightarrow> []
      | Some rows \<Rightarrow>
          if rows = [] then []
          else
            let header_row = hd rows;
                headers = build_headers 0 header_row Map.empty;
                col_file_name = dict_get headers HEADER_FILE_NAME 0;
                col_drawing_name = dict_get headers HEADER_DRAWING_NAME 1;
                col_drawing_number = dict_get headers HEADER_DRAWING_NUMBER 2
            in read_rows_loop nfc col_file_name col_drawing_name col_drawing_number
                 (tl rows) [])"

text \<open>
  The reader in the words of its description: the column of a header name is the
  position of the first header cell that equals the name after trimming and removal
  of leading byte order marks, or the default; a cell out of range reads as the empty
  string; the rows after the header are returned in order, without those whose drawing
  name is empty after normalisation.
\<close>

definition described_column :: "ustr \<Rightarrow> nat \<Rightarrow> ustr list \<Rightarrow> nat" where
  "described_column name dflt header_row =
     (case filter (\<lambda>i. lstrip_BOM (strip (header_row ! i)) = name) [0..<length header_row] of
        [] \<Rightarrow> dflt
      | i # others \<Rightarrow> i)"

definition described_cell :: "ustr list \<Rightarrow> nat \<Rightarrow> ustr" where
  "described_cell row i = (if i < length row then strip (row ! i) else [])"

definition described_rows :: "(ustr \<Rightarrow> ustr) \<Rightarrow> csv_file \<Rightarrow> ExcelPrintRow list" where
  "described_rows nfc rows =
     (case rows of
        [] \<Rightarrow> []
      | header_row # data \<Rightarrow>
          let f = described_column HEADER_FILE_NAME 0 header_row;
              n = described_column HEADER_DRAWING_NAME 1 header_row;
              m = described_column HEADER_DRAWING_NUMBER 2 header_row
          in map (\<lambda>row. \<lparr>PrintFileName = described_cell row f,
                          DrawingName = normalize_match_text nfc (Some (described_cell row n)),
                          DrawingNumber = normalize_match_text nfc (Some (described_cell row m))\<rparr>)
               (filter (\<lambda>row. normalize_match_text nfc (Some (described_cell row n)) \<noteq> [])
                  data))"

section \<open>Combined printing in sheet order\<close>










section \<open>Writing the ledger\<close>

text \<open>
  \<open>text.encode('utf-8')\<close> on a string of UTF-16 code units: the bytes, each of them a
  character below 256, as IronPython keeps a byte string. A surrogate pair is one code
  point and has four bytes. An unpaired surrogate has no encoding; \<open>encode\<close> is taken
  to raise for it, and the result is \<open>None\<close>.
\<close>

definition is_high_surrogate :: "nat \<Rightarrow> bool" where
  "is_high_surrogate c = (55296 \<le> c \<and> c \<le> 56319)"

definition is_low_surrogate :: "nat \<Rightarrow> bool" where
  "is_low_surrogate c = (56320 \<le> c \<and> c \<le> 57343)"

fun utf8_encode :: "ustr \<Rightarrow> ustr option" where
  "utf8_encode [] = Some []"
| "utf8_encode (c # cs) =
     (if c < 128 then map_option (\<lambda>bytes. c # bytes) (utf8_encode cs)
      else if c < 2048 then
        map_option (\<lambda>bytes. (192 + c div 64) # (128 + c mod 64) # bytes) (utf8_encode cs)
      else if is_high_surrogate c then
        (case cs of
           [] \<Rightarrow> None
         | d # ds \<Rightarrow>
             if is_low_surrogate d then
               let cp = 65536 + (c - 55296) * 1024 + (d - 56320)
               in map_option
                    (\<lambda>bytes. (240 + cp div 262144) # (128 + cp div 4096 mod 64) #
                              (128 + cp div 64 mod 64) # (128 + cp mod 64) # bytes)
                    (utf8_encode ds)
             else None)
      else if is_low_surrogate c then None
      else
        map_option
          (\<lambda>bytes. (224 + c div 4096) # (128 + c div 64 mod 64) # (128 + c mod 64) # bytes)
          (utf8_encode cs))"

text \<open>
  \<open>ExcelDatabase._csv_cell(value)\<close>: the UTF-8 bytes of the text, or the text itself
  (\<open>str(text)\<close>) when \<open>encode\<close> raises. \<open>codecs.BOM_UTF8\<close> is the three bytes
  \<open>EF BB BF\<close>.
\<close>

definition csv_cell :: "ustr option \<Rightarrow> ustr" where
  "csv_cell value =
     (let text = to_text value
      in case utf8_encode text of Some bytes \<Rightarrow> bytes | None \<Rightarrow> text)"

definition BOM_UTF8 :: ustr where
  "BOM_UTF8 = [239, 187, 191]"

text \<open>
  A sheet is read through its \<open>Name\<close> and its \<open>SheetNumber\<close>. A value of the two
  dictionaries \<open>name_map\<close> and \<open>number_map\<close> is \<open>None\<close>, a string, or a list (or
  tuple) of strings. A dictionary that is \<open>None\<close> or empty is the empty map.
\<close>

record view_sheet =
  Name :: ustr
  SheetNumber :: ustr

datatype py_value = PyNone | PyStr ustr | PyList "ustr list"

text \<open>The first loop of \<open>_generate_or_update_csv\<close>, over the rows already in the file.\<close>

fun index_existing_rows ::
  "ExcelPrintRow list \<Rightarrow> (ustr \<rightharpoonup> ExcelPrintRow) \<Rightarrow> ExcelPrintRow list \<Rightarrow>
   (ustr \<rightharpoonup> ExcelPrintRow) \<times> ExcelPrintRow list" where
  "index_existing_rows [] row_by_name ordered_rows = (row_by_name, ordered_rows)"
| "index_existing_rows (row # rest) row_by_name ordered_rows =
     (let key = strip (DrawingName row)
      in if key \<noteq> [] \<and> row_by_name key = None
         then index_existing_rows rest (row_by_name(key \<mapsto> row)) (ordered_rows @ [row])
         else index_existing_rows rest row_by_name ordered_rows)"

text \<open>The file names to write for one sheet: \<open>mapped_values\<close> at the end of the loop body.\<close>

definition mapped_values_of :: "(ustr \<Rightarrow> ustr) \<Rightarrow> py_value \<Rightarrow> ustr \<Rightarrow> ustr list" where
  "mapped_values_of nfc mapped_name default_file_name =
     (let mapped_values =
            (case mapped_name of
               PyList xs \<Rightarrow>
                 map (\<lambda>x. normalize_match_text nfc (Some x))
                   (filter (\<lambda>x. normalize_match_text nfc (Some x) \<noteq> []) xs)
             | PyStr t \<Rightarrow>
                 (let mapped_text = (if t \<noteq> [] then normalize_match_text nfc (Some t) else [])
                  in if mapped_text \<noteq> [] then [mapped_text] else [])
             | PyNone \<Rightarrow> [])
      in if mapped_values = [] then [default_file_name] else mapped_values)"

text \<open>The second loop, over the sheets.\<close>

fun add_sheet_rows ::
  "(ustr \<Rightarrow> ustr) \<Rightarrow> (ustr \<rightharpoonup> py_value) \<Rightarrow> (ustr \<rightharpoonup> py_value) \<Rightarrow> view_sheet list \<Rightarrow>
   (ustr \<rightharpoonup> ExcelPrintRow) \<Rightarrow> ExcelPrintRow list \<Rightarrow>
   (ustr \<rightharpoonup> ExcelPrintRow) \<times> ExcelPrintRow list" where
  "add_sheet_rows nfc name_map number_map [] row_by_name ordered_rows =
     (row_by_name, ordered_rows)"
| "add_sheet_rows nfc name_map number_map (view_sheet # rest) row_by_name ordered_rows =
     (let drawing_name = normalize_match_text nfc (Some (Name view_sheet));
          drawing_number = normalize_match_text nfc (Some (SheetNumber view_sheet))
      in if drawing_name = [] then
           add_sheet_rows nfc name_map number_map rest row_by_name ordered_rows
         else
           let default_file_name = drawing_number @ U ''_'' @ drawing_name;
               mapped_name =
                 (case name_map drawing_name of
                    Some v \<Rightarrow> v
                  | None \<Rightarrow>
                      (case number_map drawing_number of Some v \<Rightarrow> v | None \<Rightarrow> PyNone));
               mapped_values = mapped_values_of nfc mapped_name default_file_name;
               ordered_rows1 =
                 filter (\<lambda>r. normalize_match_text nfc (Some (DrawingName r)) \<noteq> drawing_name)
                   ordered_rows;
               ordered_rows2 = ordered_rows1 @
                 map (\<lambda>mapped_value.
                        \<lparr>PrintFileName = mapped_value, DrawingName = drawing_name,
                         DrawingNumber = drawing_number\<rparr>) mapped_values
           in add_sheet_rows nfc name_map number_map rest
                (row_by_name(drawing_name \<mapsto> last ordered_rows2)) ordered_rows2)"

text \<open>
  \<open>ExcelDatabase._generate_or_update_csv(path, sheets, name_map, number_map)\<close>: the
  file system after the call. The file is opened \<open>'wb'\<close> and read \<open>'rb'\<close>, so that a
  reader meets the bytes written, one character for each: the three bytes written
  before the header row are the first three characters of its first cell, and every
  cell is the byte string that \<open>_csv_cell\<close> made of it.
\<close>

definition generate_or_update_csv ::
  "(ustr \<Rightarrow> ustr) \<Rightarrow> file_system \<Rightarrow> ustr \<Rightarrow> view_sheet list \<Rightarrow>
   (ustr \<rightharpoonup> py_value) \<Rightarrow> (ustr \<rightharpoonup> py_value) \<Rightarrow> file_system" where
  "generate_or_update_csv nfc fs path sheets name_map number_map =
     (let existing_rows = (if fs path \<noteq> None then read_print_rows_csv nfc fs path else []);
          (row_by_name, ordered_rows) = index_existing_rows existing_rows Map.empty [];
          (row_by_name1, ordered_rows1) =
             add_sheet_rows nfc name_map number_map sheets row_by_name ordered_rows
      in fs(path \<mapsto>
           [BOM_UTF8 @ csv_cell (Some HEADER_FILE_NAME), csv_cell (Some HEADER_DRAWING_NAME),
            csv_cell (Some HEADER_DRAWING_NUMBER)] #
           map (\<lambda>row. [csv_cell (Some (PrintFileName row)), csv_cell (Some (DrawingName row)),
                        csv_cell (Some (DrawingNumber row))]) ordered_rows1))"

text \<open>
  The row a sheet is to come back as: the normalised name and number, and as file name
  the normalised value that the name map (or else the number map) holds for the sheet
  when that is a string and not empty once normalised, and \<open>number_name\<close> otherwise.
\<close>

definition ledger_row ::
  "(ustr \<Rightarrow> ustr) \<Rightarrow> (ustr \<rightharpoonup> py_value) \<Rightarrow> (ustr \<rightharpoonup> py_value) \<Rightarrow> view_sheet \<Rightarrow> ExcelPrintRow" where
  "ledger_row nfc name_map number_map s =
     (let n = normalize_match_text nfc (Some (Name s));
          m = normalize_match_text nfc (Some (SheetNumber s));
          mapped = (case name_map n of Some v \<Rightarrow> Some v | None \<Rightarrow> number_map m)
      in \<lparr>PrintFileName =
            (case mapped of
               Some (PyStr t) \<Rightarrow>
                 if normalize_match_text nfc (Some t) \<noteq> []
                 then normalize_match_text nfc (Some t) else m @ U ''_'' @ n
             | _ \<Rightarrow> m @ U ''_'' @ n),
          DrawingName = n, DrawingNumber = m\<rparr>)"

text \<open>
  Text that passes through the file unchanged: its characters are ASCII, so that they
  are their own UTF-8 bytes, and it has no white space at either end.
\<close>

definition ledger_text :: "ustr \<Rightarrow> bool" where
  "ledger_text t = (list_all (\<lambda>c. c < 128) t \<and> strip t = t)"

definition ledger_texts :: "ExcelPrintRow \<Rightarrow> bool" where
  "ledger_texts row =
     (ledger_text (PrintFileName row) \<and> ledger_text (DrawingName row) \<and>
      ledger_text (DrawingNumber row))"

section \<open>The ledger as a workbook or as a CSV file\<close>

text \<open>
  \<open>s.rfind(c)\<close> for a character \<open>c\<close>: the highest index at which \<open>c\<close> occurs, or
  \<open>-1\<close>.
\<close>

definition rfind :: "nat \<Rightarrow> ustr \<Rightarrow> int" where
  "rfind c p =
     (case filter (\<lambda>i. p ! i = c) (rev [0..<length p]) of
        [] \<Rightarrow> - 1
      | i # others \<Rightarrow> int i)"

text \<open>
  \<open>os.path.splitext(p)\<close>; the script runs under Windows, where \<open>os.path\<close> is the
  library module \<open>ntpath\<close>: the separators are the backslash (92) and the slash (47),
  and the extension begins at the last dot (46) of the part after the last separator,
  unless that part has only dots before it. The loop of the library function that
  skips the leading dots is the test \<open>list_ex\<close>.
\<close>

definition splitext :: "ustr \<Rightarrow> ustr \<times> ustr" where
  "splitext p =
     (let sepIndex = max (rfind 92 p) (rfind 47 p);
          dotIndex = rfind 46 p
      in if sepIndex < dotIndex \<and>
            list_ex (\<lambda>filenameIndex. p ! filenameIndex \<noteq> 46)
              [nat (sepIndex + 1)..<nat dotIndex]
         then (take (nat dotIndex) p, drop (nat dotIndex) p)
         else (p, []))"

text \<open>
  \<open>ExcelDatabase._is_csv_path(path)\<close> for a path that is \<open>None\<close> or a string;
  \<open>path or ''\<close> is the empty string for \<open>None\<close>.
\<close>

definition is_csv_path :: "ustr option \<Rightarrow> bool" where
  "is_csv_path path =
     (lower (snd (splitext (case path of None \<Rightarrow> [] | Some p \<Rightarrow> p))) = U ''.csv'')"

text \<open>
  The calls that reach the COM layer. What Excel does once it has been started is
  the host's: the two functions of \<open>excel_host\<close> give, for the part of
  \<open>generate_or_update\<close> and of \<open>read_print_rows\<close> that follows
  \<open>Activator.CreateInstance\<close>, its \<open>finally\<close> block included, the exception raised if
  any, the files it leaves, the rows it returns, and the calls it makes.
  \<open>excel_installed\<close> tells whether \<open>Type.GetTypeFromProgID\<close> finds the application.
\<close>

datatype com_call =
  GetTypeFromProgID string
| CreateInstance
| InvokeMember string
| FinalReleaseComObject

record excel_host =
  excel_installed :: bool
  generate_in_excel ::
    "file_system \<Rightarrow> ustr option \<Rightarrow> view_sheet list \<Rightarrow> (ustr \<rightharpoonup> py_value) \<Rightarrow>
     (ustr \<rightharpoonup> py_value) \<Rightarrow> bool \<Rightarrow> py_error option \<times> file_system \<times> com_call list"
  read_in_excel ::
    "file_system \<Rightarrow> ustr option \<Rightarrow> (py_error + ExcelPrintRow list) \<times> com_call list"

text \<open>
  \<open>ExcelDatabase.generate_or_update(path, sheets, name_map, number_map, force_update)\<close>:
  the exception raised if any, the files after the call, and the calls made to the COM
  layer, in order. When the application is not found, \<open>excel\<close> and \<open>workbook\<close> are
  still \<open>None\<close> in the \<open>finally\<close> block, which then calls nothing. A path that passes
  \<open>_is_csv_path\<close> is a string; \<open>None\<close> would make \<open>op.exists\<close> raise.
\<close>

definition generate_or_update ::
  "(ustr \<Rightarrow> ustr) \<Rightarrow> excel_host \<Rightarrow> file_system \<Rightarrow> ustr option \<Rightarrow> view_sheet list \<Rightarrow>
   (ustr \<rightharpoonup> py_value) \<Rightarrow> (ustr \<rightharpoonup> py_value) \<Rightarrow> bool \<Rightarrow>
   py_error option \<times> file_system \<times> com_call list" where
  "generate_or_update nfc host fs path sheets name_map number_map force_update =
     (if is_csv_path path then
        (case path of
           None \<Rightarrow> (Some (Exception ''TypeError''), fs, [])
         | Some p \<Rightarrow> (None, generate_or_update_csv nfc fs p sheets name_map number_map, []))
      else if \<not> excel_installed host then
        (Some (Exception ''Excel is not installed.''), fs,
         [GetTypeFromProgID ''Excel.Application''])
      else
        let (raised, fs1, calls) =
              generate_in_excel host fs path sheets name_map number_map force_update
        in (raised, fs1, GetTypeFromProgID ''Excel.Application'' # CreateInstance # calls))"

text \<open>
  \<open>ExcelDatabase.read_print_rows(path)\<close>: the rows returned or the exception raised,
  and the calls made to the COM layer.
\<close>

definition read_print_rows ::
  "(ustr \<Rightarrow> ustr) \<Rightarrow> excel_host \<Rightarrow> file_system \<Rightarrow> ustr option \<Rightarrow>
   (py_error + ExcelPrintRow list) \<times> com_call list" where
  "read_print_rows nfc host fs path =
     (if is_csv_path path then
        (case path of
           None \<Rightarrow> (Inl (Exception ''TypeError''), [])
         | Some p \<Rightarrow> (Inr (read_print_rows_csv nfc fs p), []))
      else if \<not> excel_installed host then
        (Inl (Exception ''Excel is not installed.''),
         [GetTypeFromProgID ''Excel.Application''])
      else
        let (result, calls) = read_in_excel host fs path
        in (result, GetTypeFromProgID ''Excel.Application'' # CreateInstance # calls))"

text \<open>
  The extension in the words of the claim: a path has the extension \<open>ext\<close> when it is
  a stem followed by \<open>ext\<close>, where \<open>ext\<close> is a dot followed by characters that are
  neither dots nor separators, and the file name in the stem, which is what follows
  its last separator, holds a character that is not a dot.
\<close>

definition is_sep :: "nat \<Rightarrow> bool" where
  "is_sep c = (c = 92 \<or> c = 47)"

definition has_extension :: "ustr \<Rightarrow> ustr \<Rightarrow> bool" where
  "has_extension p ext =
     (length ext \<le> length p \<and> drop (length p - length ext) p = ext \<and>
      ext \<noteq> [] \<and> hd ext = 46 \<and> list_all (\<lambda>c. c \<noteq> 46 \<and> \<not> is_sep c) (tl ext) \<and>
      list_ex (\<lambda>c. c \<noteq> 46)
        (takeWhile (\<lambda>c. \<not> is_sep c) (rev (take (length p - length ext) p))))"

section \<open>Properties of the id collection\<close>

lemma add_ungrouped_loop_spec:
  assumes "finite ids"
  shows "finite (fst (add_ungrouped_loop es ids n)) \<and>
         ids \<subseteq> fst (add_ungrouped_loop es ids n) \<and>
         snd (add_ungrouped_loop es ids n) = n + card (fst (add_ungrouped_loop es ids n) - ids) \<and>
         fst (add_ungrouped_loop es ids n) - ids \<subseteq>
           {elem_Id e | e. Some e \<in> set es \<and> GroupId e = InvalidElementId}"
  using assms
proof (induction es arbitrary: ids n)
  case Nil
  then show ?case by simp
next
  case (Cons elem rest)
  show ?case
  proof (cases elem)
    case None
    with Cons.IH [OF Cons.prems, of n] show ?thesis by auto
  next
    case (Some e)
    show ?thesis
    proof (cases "is_ungrouped elem \<and> elem_Id e \<notin> ids")
      case False
      with Some Cons.IH [OF Cons.prems, of n] show ?thesis by auto
    next
      case True
      let ?ids = "insert (elem_Id e) ids"
      let ?r = "add_ungrouped_loop rest ?ids (n + 1)"
      have fin: "finite ?ids" using Cons.prems by simp
      note ih = Cons.IH [OF fin, of "n + 1"]
      have step: "add_ungrouped_loop (elem # rest) ids n = ?r"
        using True Some by simp
      have new: "elem_Id e \<notin> ids" using True by simp
      have sub: "?ids \<subseteq> fst ?r" using ih by simp
      have split: "fst ?r - ids = insert (elem_Id e) (fst ?r - ?ids)"
        using sub new by auto
      have notin: "elem_Id e \<notin> fst ?r - ?ids" by simp
      have finr: "finite (fst ?r - ?ids)" using ih by simp
      have card_eq: "card (fst ?r - ids) = Suc (card (fst ?r - ?ids))"
        unfolding split using finr notin by simp
      have ung: "GroupId e = InvalidElementId"
        using True Some by (simp add: is_ungrouped_def)
      have src: "fst ?r - ids \<subseteq>
          {elem_Id x | x. Some x \<in> set (elem # rest) \<and> GroupId x = InvalidElementId}"
      proof
        fix i assume "i \<in> fst ?r - ids"
        then have "i = elem_Id e \<or> i \<in> fst ?r - ?ids" using split by auto
        then show "i \<in> {elem_Id x | x. Some x \<in> set (elem # rest) \<and>
                          GroupId x = InvalidElementId}"
        proof
          assume "i = elem_Id e"
          then show ?thesis using ung Some by auto
        next
          assume "i \<in> fst ?r - ?ids"
          then have "i \<in> {elem_Id x | x. Some x \<in> set rest \<and> GroupId x = InvalidElementId}"
            using ih by blast
          then show ?thesis by auto
        qed
      qed
      show ?thesis
        unfolding step using ih sub card_eq src by auto
    qed
  qed
qed

lemma add_ungrouped_ids_spec:
  assumes "finite ids" and "add_ungrouped_ids es ids = (ids', n)"
  shows "finite ids'" and "ids \<subseteq> ids'" and "n = card (ids' - ids)"
    and "card ids' = card ids + n"
    and "ids' - ids \<subseteq> {elem_Id e | e. Some e \<in> set es \<and> GroupId e = InvalidElementId}"
proof -
  have eqs: "fst (add_ungrouped_loop es ids 0) = ids'" "snd (add_ungrouped_loop es ids 0) = n"
    using assms(2) by (simp_all add: add_ungrouped_ids_def)
  note spec = add_ungrouped_loop_spec [OF assms(1), of es 0, unfolded eqs]
  show fin: "finite ids'" and sub: "ids \<subseteq> ids'" and n: "n = card (ids' - ids)"
    using spec by simp_all
  show "card ids' = card ids + n"
    using n card_Diff_subset [OF assms(1) sub] card_mono [OF fin sub] by simp
  show "ids' - ids \<subseteq> {elem_Id e | e. Some e \<in> set es \<and> GroupId e = InvalidElementId}"
    using spec by simp
qed

text \<open>
  Claim C10. In the Delete Ungrouped Elements script: every id in \<open>ids_to_delete\<close> is
  the \<open>Id\<close> of a collected element whose \<open>GroupId\<close> is \<open>InvalidElementId\<close>; the ids
  form a finite set (a set holds each id once); every count returned by
  \<open>add_ungrouped_ids\<close> is the number of ids that pass added to the set; and the eight
  reported counts sum to the number of ids submitted for deletion.
\<close>

theorem ids_to_delete_counts:
  assumes run: "ids_to_delete dc rd c = (ids, counts)"
  shows "finite ids \<and>
         (\<forall>i\<in>ids. \<exists>e. Some e \<in> set (collected_elements c) \<and> elem_Id e = i \<and>
                          GroupId e = InvalidElementId) \<and>
         (\<forall>es s. finite s \<longrightarrow>
            snd (add_ungrouped_ids es s) = card (fst (add_ungrouped_ids es s) - s) \<and>
            s \<subseteq> fst (add_ungrouped_ids es s)) \<and>
         length counts = 8 \<and>
         sum_list counts = card ids"
proof -
  let ?U = "\<lambda>es. {elem_Id e | e. Some e \<in> set es \<and> GroupId e = InvalidElementId}"
  let ?sym = "filter (is_symbol_like dc rd) (family_instances c)"
  obtain s1 n1 where p1: "add_ungrouped_ids (curve_elements c) {} = (s1, n1)"
    by (cases "add_ungrouped_ids (curve_elements c) {}")
  obtain s2 n2 where p2: "add_ungrouped_ids (filled_regions c) s1 = (s2, n2)"
    by (cases "add_ungrouped_ids (filled_regions c) s1")
  obtain s3 n3 where p3: "add_ungrouped_ids (independent_tags c) s2 = (s3, n3)"
    by (cases "add_ungrouped_ids (independent_tags c) s2")
  obtain s4 n4 where p4: "add_ungrouped_ids (areas c) s3 = (s4, n4)"
    by (cases "add_ungrouped_ids (areas c) s3")
  obtain s5 n5 where p5: "add_ungrouped_ids (rooms c) s4 = (s5, n5)"
    by (cases "add_ungrouped_ids (rooms c) s4")
  obtain s6 n6 where p6: "add_ungrouped_ids (masking_regions c) s5 = (s6, n6)"
    by (cases "add_ungrouped_ids (masking_regions c) s5")
  obtain s7 n7 where p7: "add_ungrouped_ids (text_notes c) s6 = (s7, n7)"
    by (cases "add_ungrouped_ids (text_notes c) s6")
  obtain s8 n8 where p8: "add_ungrouped_ids ?sym s7 = (s8, n8)"
    by (cases "add_ungrouped_ids ?sym s7")
  have res: "ids = s8" "counts = [n1, n2, n3, n4, n5, n6, n7, n8]"
    using run by (simp_all add: ids_to_delete_def p1 p2 p3 p4 p5 p6 p7 p8)
  have f0: "finite ({}::int set)" by simp
  note a1 = add_ungrouped_ids_spec [OF f0 p1]
  note a2 = add_ungrouped_ids_spec [OF a1(1) p2]
  note a3 = add_ungrouped_ids_spec [OF a2(1) p3]
  note a4 = add_ungrouped_ids_spec [OF a3(1) p4]
  note a5 = add_ungrouped_ids_spec [OF a4(1) p5]
  note a6 = add_ungrouped_ids_spec [OF a5(1) p6]
  note a7 = add_ungrouped_ids_spec [OF a6(1) p7]
  note a8 = add_ungrouped_ids_spec [OF a7(1) p8]
  have fin: "finite ids" using a8(1) res(1) by simp
  have total: "sum_list counts = card ids"
    using a1(4) a2(4) a3(4) a4(4) a5(4) a6(4) a7(4) a8(4) res by simp
  have symsub: "?U ?sym \<subseteq> ?U (family_instances c)" by auto
  have b1: "s1 \<subseteq> ?U (curve_elements c)" using a1(5) by simp
  have b2: "s2 \<subseteq> s1 \<union> ?U (filled_regions c)" using a2(5) by (rule Diff_subset_conv [THEN iffD1])
  have b3: "s3 \<subseteq> s2 \<union> ?U (independent_tags c)" using a3(5) by (rule Diff_subset_conv [THEN iffD1])
  have b4: "s4 \<subseteq> s3 \<union> ?U (areas c)" using a4(5) by (rule Diff_subset_conv [THEN iffD1])
  have b5: "s5 \<subseteq> s4 \<union> ?U (rooms c)" using a5(5) by (rule Diff_subset_conv [THEN iffD1])
  have b6: "s6 \<subseteq> s5 \<union> ?U (masking_regions c)" using a6(5) by (rule Diff_subset_conv [THEN iffD1])
  have b7: "s7 \<subseteq> s6 \<union> ?U (text_notes c)" using a7(5) by (rule Diff_subset_conv [THEN iffD1])
  have b8: "s8 \<subseteq> s7 \<union> ?U (family_instances c)"
    using a8(5) symsub Diff_subset_conv [of s8 s7 "?U (family_instances c)"] by (meson order_trans)
  have c2: "s2 \<subseteq> ?U (curve_elements c) \<union> ?U (filled_regions c)"
    using b1 b2 by (meson Un_mono order_refl order_trans)
  have c3: "s3 \<subseteq> ?U (curve_elements c) \<union> ?U (filled_regions c) \<union> ?U (independent_tags c)"
    using c2 b3 by (meson Un_mono order_refl order_trans)
  have c4: "s4 \<subseteq> ?U (curve_elements c) \<union> ?U (filled_regions c) \<union> ?U (independent_tags c) \<union>
          ?U (areas c)"
    using c3 b4 by (meson Un_mono order_refl order_trans)
  have c5: "s5 \<subseteq> ?U (curve_elements c) \<union> ?U (filled_regions c) \<union> ?U (independent_tags c) \<union>
          ?U (areas c) \<union> ?U (rooms c)"
    using c4 b5 by (meson Un_mono order_refl order_trans)
  have c6: "s6 \<subseteq> ?U (curve_elements c) \<union> ?U (filled_regions c) \<union> ?U (independent_tags c) \<union>
          ?U (areas c) \<union> ?U (rooms c) \<union> ?U (masking_regions c)"
    using c5 b6 by (meson Un_mono order_refl order_trans)
  have c7: "s7 \<subseteq> ?U (curve_elements c) \<union> ?U (filled_regions c) \<union> ?U (independent_tags c) \<union>
          ?U (areas c) \<union> ?U (rooms c) \<union> ?U (masking_regions c) \<union> ?U (text_notes c)"
    using c6 b7 by (meson Un_mono order_refl order_trans)
  have "s8 \<subseteq> ?U (curve_elements c) \<union> ?U (filled_regions c) \<union> ?U (independent_tags c) \<union>
          ?U (areas c) \<union> ?U (rooms c) \<union> ?U (masking_regions c) \<union> ?U (text_notes c) \<union>
          ?U (family_instances c)"
    using c7 b8 by (meson Un_mono order_refl order_trans)
  then have src: "\<forall>i\<in>ids. \<exists>e. Some e \<in> set (collected_elements c) \<and> elem_Id e = i \<and>
                          GroupId e = InvalidElementId"
    unfolding res(1) collected_elements_def by auto
  have pass: "\<forall>es s. finite s \<longrightarrow>
            snd (add_ungrouped_ids es s) = card (fst (add_ungrouped_ids es s) - s) \<and>
            s \<subseteq> fst (add_ungrouped_ids es s)"
  proof (intro allI impI)
    fix es and s :: "int set"
    assume fs: "finite s"
    obtain s' n where p: "add_ungrouped_ids es s = (s', n)"
      by (cases "add_ungrouped_ids es s")
    show "snd (add_ungrouped_ids es s) = card (fst (add_ungrouped_ids es s) - s) \<and>
            s \<subseteq> fst (add_ungrouped_ids es s)"
      using add_ungrouped_ids_spec(2,3) [OF fs p] p by simp
  qed
  show ?thesis using fin src pass total res(2) by simp
qed

text \<open>
  A run of the script on three curve elements (one of them grouped, one returned twice)
  and one annotation family instance.
\<close>

theorem ids_to_delete_counts_witness:
  "ids_to_delete (- 2002000) (- 2002001)
     \<lparr>curve_elements =
        [Some \<lparr>elem_Id = 1, GroupId = - 1, Category = None\<rparr>,
         Some \<lparr>elem_Id = 2, GroupId = 7, Category = None\<rparr>,
         Some \<lparr>elem_Id = 1, GroupId = - 1, Category = None\<rparr>],
      filled_regions = [], independent_tags = [], areas = [], rooms = [],
      masking_regions = [], text_notes = [],
      family_instances =
        [Some \<lparr>elem_Id = 5, GroupId = - 1,
               Category = Some \<lparr>CategoryType = Annotation, cat_Id = 3\<rparr>\<rparr>]\<rparr>
   = ({1, 5}, [1, 0, 0, 0, 0, 0, 0, 1]) \<and>
   sum_list [1, 0, 0, 0, 0, 0, 0, 1::nat] = card {1, 5::int}"
proof -
  let ?c = "\<lparr>curve_elements =
        [Some \<lparr>elem_Id = 1, GroupId = - 1, Category = None\<rparr>,
         Some \<lparr>elem_Id = 2, GroupId = 7, Category = None\<rparr>,
         Some \<lparr>elem_Id = 1, GroupId = - 1, Category = None\<rparr>],
      filled_regions = [], independent_tags = [], areas = [], rooms = [],
      masking_regions = [], text_notes = [],
      family_instances =
        [Some \<lparr>elem_Id = 5, GroupId = - 1,
               Category = Some \<lparr>CategoryType = Annotation, cat_Id = 3\<rparr>\<rparr>]\<rparr>"
  have run: "ids_to_delete (- 2002000) (- 2002001) ?c = ({1, 5}, [1, 0, 0, 0, 0, 0, 0, 1])"
    by (simp add: ids_to_delete_def add_ungrouped_ids_def is_ungrouped_def
        is_symbol_like_def InvalidElementId_def insert_commute)
  show ?thesis using run ids_to_delete_counts [OF run] by simp
qed

section \<open>File-name extensions: properties\<close>

lemma lower_append: "lower (a @ b) = lower a @ lower b"
  by (simp add: lower_def)

lemma lower_pdf: "lower (U ''.pdf'') = U ''.pdf''"
  by (simp add: lower_def lower_char_def U_def)

lemma U_pdf_nonempty: "U ''.pdf'' \<noteq> []"
  by (simp add: U_def)

lemma endswith_append_self: "endswith (a @ b) b"
  by (simp add: endswith_def)

lemma endswith_last:
  assumes "endswith s suffix" and "suffix \<noteq> []"
  shows "s \<noteq> [] \<and> last s = last suffix"
proof -
  from assms have len: "length suffix \<le> length s"
    and d: "drop (length s - length suffix) s = suffix"
    by (simp_all add: endswith_def)
  from d assms(2) have ne: "drop (length s - length suffix) s \<noteq> []" by simp
  then have "s \<noteq> []" by auto
  moreover have "last s = last (drop (length s - length suffix) s)"
    using ne by (simp add: last_drop)
  ultimately show ?thesis using d by simp
qed

lemma pdf_not_dwg:
  assumes "endswith s (U ''.pdf'')"
  shows "\<not> endswith s (U ''.dwg'')"
proof
  assume "endswith s (U ''.dwg'')"
  then have "last s = last (U ''.dwg'')" using endswith_last [of s "U ''.dwg''"]
    by (simp add: U_def)
  moreover have "last s = last (U ''.pdf'')" using assms endswith_last [of s "U ''.pdf''"]
    by (simp add: U_def)
  ultimately show False by (simp add: U_def)
qed

lemma ensure_pdf_extension_ends:
  assumes "v \<noteq> []"
  shows "\<exists>r. ensure_pdf_extension (Some v) = Some r \<and> r \<noteq> [] \<and> endswith (lower r) (U ''.pdf'')"
proof (cases "endswith (lower v) (U ''.dwg'')")
  case dwg: True
  let ?v1 = "take (length v - 4) v"
  show ?thesis
  proof (cases "endswith (lower ?v1) (U ''.pdf'')")
    case True
    then have "?v1 \<noteq> []" using endswith_last [of "lower ?v1" "U ''.pdf''"]
      by (auto simp: U_def lower_def)
    then show ?thesis using assms dwg True by (simp add: ensure_pdf_extension_def Let_def)
  next
    case False
    then show ?thesis using assms dwg
      by (simp add: ensure_pdf_extension_def Let_def lower_append lower_pdf endswith_append_self
          U_pdf_nonempty)
  qed
next
  case nodwg: False
  show ?thesis
  proof (cases "endswith (lower v) (U ''.pdf'')")
    case True
    then show ?thesis using assms nodwg by (simp add: ensure_pdf_extension_def Let_def)
  next
    case False
    then show ?thesis using assms nodwg
      by (simp add: ensure_pdf_extension_def Let_def lower_append lower_pdf endswith_append_self
          U_pdf_nonempty)
  qed
qed

lemma ensure_pdf_extension_fixed:
  assumes "r \<noteq> []" and "endswith (lower r) (U ''.pdf'')"
  shows "ensure_pdf_extension (Some r) = Some r"
  using assms pdf_not_dwg [OF assms(2)] by (simp add: ensure_pdf_extension_def Let_def)

text \<open>
  Claim C9. For a non-empty string \<open>_ensure_pdf_extension\<close> returns a string that ends
  with \<open>.pdf\<close>, compared case-insensitively; a trailing \<open>.dwg\<close> is removed before
  \<open>.pdf\<close> is appended where it is absent; applying the function twice gives what
  applying it once gives; \<open>None\<close> and the empty string come back unchanged; and
  \<open>verify_template\<close> returns, for every string, a template that ends with \<open>.pdf\<close>.
\<close>

theorem ensure_pdf_extension_idempotent:
  "(v \<noteq> [] \<longrightarrow>
      (\<exists>r. ensure_pdf_extension (Some v) = Some r \<and> endswith (lower r) (U ''.pdf''))) \<and>
   (endswith (lower v) (U ''.dwg'') \<and>
      \<not> endswith (lower (take (length v - 4) v)) (U ''.pdf'') \<longrightarrow>
      ensure_pdf_extension (Some v) = Some (take (length v - 4) v @ U ''.pdf'')) \<and>
   (\<not> endswith (lower v) (U ''.dwg'') \<and> \<not> endswith (lower v) (U ''.pdf'') \<and> v \<noteq> [] \<longrightarrow>
      ensure_pdf_extension (Some v) = Some (v @ U ''.pdf'')) \<and>
   ensure_pdf_extension (ensure_pdf_extension x) = ensure_pdf_extension x \<and>
   ensure_pdf_extension None = None \<and>
   ensure_pdf_extension (Some []) = Some [] \<and>
   (\<exists>t. verify_template (Some v) = Inr t \<and> endswith (lower t) (U ''.pdf''))"
proof -
  have idem: "ensure_pdf_extension (ensure_pdf_extension x) = ensure_pdf_extension x"
  proof (cases x)
    case None
    then show ?thesis by (simp add: ensure_pdf_extension_def)
  next
    case (Some w)
    show ?thesis
    proof (cases "w = []")
      case True
      then show ?thesis using Some by (simp add: ensure_pdf_extension_def)
    next
      case False
      from ensure_pdf_extension_ends [OF False] obtain r
        where r: "ensure_pdf_extension (Some w) = Some r" "r \<noteq> []"
          "endswith (lower r) (U ''.pdf'')" by blast
      then show ?thesis using Some ensure_pdf_extension_fixed [of r] by simp
    qed
  qed
  have dwg: "endswith (lower v) (U ''.dwg'') \<and>
      \<not> endswith (lower (take (length v - 4) v)) (U ''.pdf'') \<longrightarrow>
      ensure_pdf_extension (Some v) = Some (take (length v - 4) v @ U ''.pdf'')"
  proof
    assume a: "endswith (lower v) (U ''.dwg'') \<and>
      \<not> endswith (lower (take (length v - 4) v)) (U ''.pdf'')"
    then have "v \<noteq> []" using endswith_last [of "lower v" "U ''.dwg''"]
      by (auto simp: U_def lower_def)
    then show "ensure_pdf_extension (Some v) = Some (take (length v - 4) v @ U ''.pdf'')"
      using a by (simp add: ensure_pdf_extension_def Let_def)
  qed
  have plain: "\<not> endswith (lower v) (U ''.dwg'') \<and> \<not> endswith (lower v) (U ''.pdf'') \<and> v \<noteq> [] \<longrightarrow>
      ensure_pdf_extension (Some v) = Some (v @ U ''.pdf'')"
    by (simp add: ensure_pdf_extension_def Let_def)
  have tmpl: "\<exists>t. verify_template (Some v) = Inr t \<and> endswith (lower t) (U ''.pdf'')"
    by (simp add: verify_template_def lower_append lower_pdf endswith_append_self)
  have none: "ensure_pdf_extension None = None"
    and empty: "ensure_pdf_extension (Some []) = Some []"
    by (simp_all add: ensure_pdf_extension_def)
  have ends: "v \<noteq> [] \<longrightarrow>
      (\<exists>r. ensure_pdf_extension (Some v) = Some r \<and> endswith (lower r) (U ''.pdf''))"
    using ensure_pdf_extension_ends [of v] by blast
  from ends dwg plain idem none empty tmpl show ?thesis by blast
qed

text \<open>\<open>Plan.DWG\<close> loses its \<open>.DWG\<close> and gains \<open>.pdf\<close>; \<open>A1.PDF\<close> is kept as it is.\<close>

theorem ensure_pdf_extension_idempotent_witness:
  "ensure_pdf_extension (Some (U ''Plan.DWG'')) = Some (U ''Plan.pdf'') \<and>
   ensure_pdf_extension (Some (U ''A1.PDF'')) = Some (U ''A1.PDF'') \<and>
   ensure_pdf_extension (ensure_pdf_extension (Some (U ''Plan.DWG''))) =
     ensure_pdf_extension (Some (U ''Plan.DWG'')) \<and>
   verify_template (Some (U ''Plan.DWG'')) = Inr (U ''Plan.DWG.pdf'')"
proof -
  have e1: "endswith (lower (U ''Plan.DWG'')) (U ''.dwg'')"
    by (simp add: endswith_def lower_def lower_char_def U_def)
  have e2: "\<not> endswith (lower (take (length (U ''Plan.DWG'') - 4) (U ''Plan.DWG''))) (U ''.pdf'')"
    by (simp add: endswith_def lower_def lower_char_def U_def)
  have e3: "U ''Plan.DWG'' \<noteq> []" by (simp add: U_def)
  have a: "ensure_pdf_extension (Some (U ''Plan.DWG'')) = Some (U ''Plan.pdf'')"
    using ensure_pdf_extension_idempotent [of "U ''Plan.DWG''" "Some (U ''Plan.DWG'')"] e1 e2
    by (simp add: U_def)
  have b: "ensure_pdf_extension (Some (U ''A1.PDF'')) = Some (U ''A1.PDF'')"
    by (simp add: ensure_pdf_extension_def Let_def endswith_def lower_def lower_char_def U_def)
  have c: "verify_template (Some (U ''Plan.DWG'')) = Inr (U ''Plan.DWG.pdf'')"
    by (simp add: verify_template_def endswith_def lower_def lower_char_def U_def)
  show ?thesis
    using a b c ensure_pdf_extension_idempotent [of "U ''Plan.DWG''" "Some (U ''Plan.DWG'')"] e3
    by simp
qed

section \<open>The print scheduler: properties\<close>

lemma handle_reminders_fields:
  "RunAt (fst (handle_reminders job now)) = RunAt job"
  "IsRunning (fst (handle_reminders job now)) = IsRunning job"
  "TargetSheets (fst (handle_reminders job now)) = TargetSheets job"
  by (simp_all add: handle_reminders_def Let_def split: option.splits)

lemma sched_inv_init: "sched_inv PrintScheduler_init"
  by (simp add: sched_inv_def PrintScheduler_init_def)

lemma sched_inv_schedule_print:
  assumes "sched_inv s"
  shows "sched_inv (schedule_print run_at sheets s)"
proof -
  from assms have runs: "list_all (\<lambda>(r, t). r < length (jobs s) \<and> IsRunning (jobs s ! r) \<and>
                         RunAt (jobs s ! r) \<le> t) (print_runs s)"
    and dist: "distinct (map fst (print_runs s))"
    by (simp_all add: sched_inv_def)
  have fresh: "length (jobs s) \<notin> fst ` set (print_runs s)"
    using runs by (auto simp: list_all_iff)
  have runs': "list_all (\<lambda>(r, t). r < Suc (length (jobs s)) \<and>
        IsRunning ((jobs s @ [ScheduledJob_init run_at sheets]) ! r) \<and>
        RunAt ((jobs s @ [ScheduledJob_init run_at sheets]) ! r) \<le> t) (print_runs s)"
    using runs by (auto simp: list_all_iff nth_append)
  show ?thesis
    using fresh runs' dist
    by (simp add: sched_inv_def schedule_print_def set_job_def ScheduledJob_init_def)
qed

lemma sched_inv_cancel_job:
  assumes "sched_inv s"
  shows "sched_inv (cancel_job s)"
  using assms by (simp add: sched_inv_def cancel_job_def)

lemma sched_inv_process_schedule:
  assumes inv: "sched_inv s"
  shows "sched_inv (process_schedule now now_reminder s)"
proof (cases "job_ref s")
  case None
  then show ?thesis using inv by (simp add: process_schedule_def)
next
  case (Some r)
  from inv Some have len: "Suc r = length (jobs s)" and idle: "\<not> IsRunning (jobs s ! r)"
    and fresh: "r \<notin> fst ` set (print_runs s)"
    by (simp_all add: sched_inv_def)
  from inv have runs: "list_all (\<lambda>(r, t). r < length (jobs s) \<and> IsRunning (jobs s ! r) \<and>
                         RunAt (jobs s ! r) \<le> t) (print_runs s)"
    and dist: "distinct (map fst (print_runs s))"
    by (simp_all add: sched_inv_def)
  have rlt: "r < length (jobs s)" using len by simp
  have old: "q < length (jobs s) \<and> IsRunning (jobs s ! q) \<and> RunAt (jobs s ! q) \<le> t \<and> q \<noteq> r"
    if "(q, t) \<in> set (print_runs s)" for q t
  proof -
    from that runs have "q < length (jobs s) \<and> IsRunning (jobs s ! q) \<and> RunAt (jobs s ! q) \<le> t"
      by (auto simp: list_all_iff)
    moreover from that fresh have "q \<noteq> r" by force
    ultimately show ?thesis by simp
  qed
  let ?job = "jobs s ! r"
  show ?thesis
  proof (cases "now < RunAt ?job")
    case True
    obtain job' shown where h: "handle_reminders ?job now_reminder = (job', shown)"
      by (cases "handle_reminders ?job now_reminder")
    have f: "RunAt job' = RunAt ?job" "IsRunning job' = IsRunning ?job"
      using handle_reminders_fields(1,2) [of ?job now_reminder] h by simp_all
    have st: "process_schedule now now_reminder s =
        s\<lparr>jobs := (jobs s)[r := job'],
          reminders := reminders s @ (case shown of None \<Rightarrow> [] | Some m \<Rightarrow> [(r, m)])\<rparr>"
      using Some rlt idle True h by (simp add: process_schedule_def Let_def)
    have runs': "list_all (\<lambda>(q, t). q < length (jobs s) \<and> IsRunning ((jobs s)[r := job'] ! q) \<and>
                         RunAt ((jobs s)[r := job'] ! q) \<le> t) (print_runs s)"
      unfolding list_all_iff
    proof (intro ballI, clarify)
      fix q t assume "(q, t) \<in> set (print_runs s)"
      from old [OF this] have "q < length (jobs s)" "IsRunning (jobs s ! q)"
        "RunAt (jobs s ! q) \<le> t" "r \<noteq> q" by auto
      then show "q < length (jobs s) \<and> IsRunning ((jobs s)[r := job'] ! q) \<and>
                         RunAt ((jobs s)[r := job'] ! q) \<le> t"
        by simp
    qed
    show ?thesis
      unfolding st using Some len idle fresh runs' dist f rlt
      by (simp add: sched_inv_def)
  next
    case False
    have st: "process_schedule now now_reminder s =
        s\<lparr>jobs := (jobs s)[r := ?job\<lparr>IsRunning := True\<rparr>], job_ref := None,
          print_runs := print_runs s @ [(r, now)]\<rparr>"
      using Some rlt idle False by (simp add: process_schedule_def Let_def)
    have runs': "list_all (\<lambda>(q, t). q < length (jobs s) \<and>
                         IsRunning ((jobs s)[r := ?job\<lparr>IsRunning := True\<rparr>] ! q) \<and>
                         RunAt ((jobs s)[r := ?job\<lparr>IsRunning := True\<rparr>] ! q) \<le> t)
                   (print_runs s)"
      unfolding list_all_iff
    proof (intro ballI, clarify)
      fix q t assume "(q, t) \<in> set (print_runs s)"
      from old [OF this] have "q < length (jobs s)" "IsRunning (jobs s ! q)"
        "RunAt (jobs s ! q) \<le> t" "r \<noteq> q" by auto
      then show "q < length (jobs s) \<and> IsRunning ((jobs s)[r := ?job\<lparr>IsRunning := True\<rparr>] ! q) \<and>
                         RunAt ((jobs s)[r := ?job\<lparr>IsRunning := True\<rparr>] ! q) \<le> t"
        by simp
    qed
    have nodup: "r \<notin> set (map fst (print_runs s))" using fresh by simp
    show ?thesis
      unfolding st using runs' dist nodup rlt False
      by (simp add: sched_inv_def)
  qed
qed

lemma sched_inv_step:
  assumes "sched_inv s"
  shows "sched_inv (step s e)"
  using assms
  by (cases e)
     (simp_all add: sched_inv_schedule_print sched_inv_cancel_job sched_inv_process_schedule
        on_idling_def on_timer_tick_def)

lemma sched_inv_foldl:
  assumes "sched_inv s"
  shows "sched_inv (foldl step s evs)"
  using assms by (induction evs arbitrary: s) (simp_all add: sched_inv_step)

lemma sched_inv_run_events: "sched_inv (run_events evs)"
  by (simp add: run_events_def sched_inv_foldl sched_inv_init)

lemma handle_reminders_RunAt:
  assumes "handle_reminders job now = (job', shown)"
  shows "RunAt job' = RunAt job"
  using handle_reminders_fields(1) [of job now] assms by simp

lemma process_schedule_RunAt:
  "map RunAt (jobs (process_schedule now nr s)) = map RunAt (jobs s)"
  by (auto simp: process_schedule_def Let_def map_update list_update_same_conv
      handle_reminders_RunAt split: option.splits prod.splits)

lemma RunAt_step:
  "map RunAt (jobs (step s e)) =
     map RunAt (jobs s) @ (case e of SchedulePrint run_at sh \<Rightarrow> [run_at] | _ \<Rightarrow> [])"
proof (cases e)
  case (SchedulePrint run_at sh)
  then show ?thesis
    by (simp add: schedule_print_def set_job_def ScheduledJob_init_def)
next
  case CancelSchedule
  then show ?thesis by (simp add: cancel_job_def)
next
  case (Idling now nr)
  then show ?thesis by (simp add: on_idling_def process_schedule_RunAt)
next
  case (TimerTick now nr)
  then show ?thesis by (simp add: on_timer_tick_def process_schedule_RunAt)
qed

lemma RunAt_foldl:
  "map RunAt (jobs (foldl step s evs)) = map RunAt (jobs s) @ scheduled_times evs"
proof (induction evs arbitrary: s)
  case Nil
  then show ?case by simp
next
  case (Cons e evs)
  have "map RunAt (jobs (foldl step s (e # evs))) =
        map RunAt (jobs (step s e)) @ scheduled_times evs"
    using Cons.IH [of "step s e"] by simp
  also have "\<dots> = (map RunAt (jobs s) @
        (case e of SchedulePrint run_at sh \<Rightarrow> [run_at] | _ \<Rightarrow> [])) @ scheduled_times evs"
    by (simp only: RunAt_step)
  also have "\<dots> = map RunAt (jobs s) @ scheduled_times (e # evs)"
    by (cases e) simp_all
  finally show ?case .
qed

text \<open>
  Claim C1. In every state the scheduler reaches, each call of \<open>_run_print\<close> was let
  through by a clock reading at or after the job's \<open>RunAt\<close> (the time given when the
  job was scheduled), and no job was handed to \<open>_run_print\<close> twice, although the
  Idling handler and the timer tick run the same routine; the job that is run carries
  \<open>IsRunning\<close>, and the slot is empty when the run is logged.
\<close>

theorem scheduled_print_due_and_once:
  "map RunAt (jobs (run_events evs)) = scheduled_times evs \<and>
   list_all (\<lambda>(r, t). r < length (jobs (run_events evs)) \<and>
                      IsRunning (jobs (run_events evs) ! r) \<and>
                      RunAt (jobs (run_events evs) ! r) \<le> t)
     (print_runs (run_events evs)) \<and>
   distinct (map fst (print_runs (run_events evs))) \<and>
   on_idling now now_reminder (run_events evs) =
     on_timer_tick now now_reminder (run_events evs) \<and>
   (print_runs (on_idling now now_reminder (run_events evs)) = print_runs (run_events evs) \<or>
    job_ref (on_idling now now_reminder (run_events evs)) = None)"
proof -
  have inv: "sched_inv (run_events evs)" by (rule sched_inv_run_events)
  have times: "map RunAt (jobs (run_events evs)) = scheduled_times evs"
    using RunAt_foldl [of PrintScheduler_init evs]
    by (simp add: run_events_def PrintScheduler_init_def)
  have same: "on_idling now now_reminder (run_events evs) =
     on_timer_tick now now_reminder (run_events evs)"
    by (simp add: on_idling_def on_timer_tick_def)
  have cleared: "print_runs (on_idling now now_reminder (run_events evs)) =
      print_runs (run_events evs) \<or>
    job_ref (on_idling now now_reminder (run_events evs)) = None"
    by (simp add: on_idling_def process_schedule_def Let_def split: option.splits prod.splits)
  show ?thesis using inv times same cleared by (simp add: sched_inv_def)
qed

text \<open>
  Claim C2. In every state the scheduler reaches the slot is empty or holds the job
  created last, which has not been dispatched; \<open>schedule_print\<close> puts its new job in
  the slot whatever was there, \<open>cancel_job\<close> empties it, a poll that starts a print run
  empties it, and a poll that starts none leaves it as it was.
\<close>

theorem scheduler_single_pending_job:
  "(job_ref (run_events evs) = None \<or>
    (\<exists>r. job_ref (run_events evs) = Some r \<and> Suc r = length (jobs (run_events evs)) \<and>
         \<not> IsRunning (jobs (run_events evs) ! r) \<and>
         r \<notin> fst ` set (print_runs (run_events evs)))) \<and>
   job_ref (step (run_events evs) (SchedulePrint run_at sheets)) =
     Some (length (jobs (run_events evs))) \<and>
   job_ref (set_job j (run_events evs)) = j \<and>
   job_ref (step (run_events evs) CancelSchedule) = None \<and>
   job_ref (process_schedule now now_reminder (run_events evs)) =
     (if print_runs (process_schedule now now_reminder (run_events evs)) =
         print_runs (run_events evs)
      then job_ref (run_events evs) else None)"
proof -
  have inv: "sched_inv (run_events evs)" by (rule sched_inv_run_events)
  have slot: "job_ref (run_events evs) = None \<or>
    (\<exists>r. job_ref (run_events evs) = Some r \<and> Suc r = length (jobs (run_events evs)) \<and>
         \<not> IsRunning (jobs (run_events evs) ! r) \<and>
         r \<notin> fst ` set (print_runs (run_events evs)))"
    using inv by (cases "job_ref (run_events evs)") (simp_all add: sched_inv_def)
  have sched: "job_ref (step (run_events evs) (SchedulePrint run_at sheets)) =
     Some (length (jobs (run_events evs)))"
    by (simp add: schedule_print_def set_job_def)
  have setj: "job_ref (set_job j (run_events evs)) = j"
    by (simp add: set_job_def)
  have cancel: "job_ref (step (run_events evs) CancelSchedule) = None"
    by (simp add: cancel_job_def)
  have poll: "job_ref (process_schedule now now_reminder (run_events evs)) =
     (if print_runs (process_schedule now now_reminder (run_events evs)) =
         print_runs (run_events evs)
      then job_ref (run_events evs) else None)"
    by (simp add: process_schedule_def Let_def split: option.splits prod.splits)
  from slot sched setj cancel poll show ?thesis by blast
qed

text \<open>
  A job due after sixty seconds: the poll at time zero shows the 60-second reminder, the
  poll one tick before \<open>RunAt\<close> starts nothing, the first poll at \<open>RunAt\<close> starts the
  print, and the later polls find the slot empty.
\<close>

theorem scheduled_print_due_and_once_witness:
  "print_runs (run_events [SchedulePrint 600000000 [1, 2], Idling 0 0,
       TimerTick 599999999 599999999, Idling 600000000 600000000,
       TimerTick 600000000 600000000, Idling 600000001 600000001]) = [(0, 600000000)] \<and>
   reminders (run_events [SchedulePrint 600000000 [1, 2], Idling 0 0,
       TimerTick 599999999 599999999, Idling 600000000 600000000,
       TimerTick 600000000 600000000, Idling 600000001 600000001]) = [(0, 60)] \<and>
   scheduled_times [SchedulePrint 600000000 [1, 2], Idling 0 0,
       TimerTick 599999999 599999999, Idling 600000000 600000000,
       TimerTick 600000000 600000000, Idling 600000001 600000001] = [600000000] \<and>
   map RunAt (jobs (run_events [SchedulePrint 600000000 [1, 2], Idling 0 0,
       TimerTick 599999999 599999999, Idling 600000000 600000000,
       TimerTick 600000000 600000000, Idling 600000001 600000001])) = [600000000]"
proof -
  let ?evs = "[SchedulePrint 600000000 [1, 2], Idling 0 0,
       TimerTick 599999999 599999999, Idling 600000000 600000000,
       TimerTick 600000000 600000000, Idling 600000001 600000001]"
  have run: "run_events ?evs =
      \<lparr>jobs = [\<lparr>RunAt = 600000000, TargetSheets = [1, 2], IsRunning = True,
                RemindersShown = {60}\<rparr>],
       job_ref = None, reminders = [(0, 60)], print_runs = [(0, 600000000)]\<rparr>"
    by (simp add: run_events_def PrintScheduler_init_def schedule_print_def set_job_def
        ScheduledJob_init_def on_idling_def on_timer_tick_def process_schedule_def
        handle_reminders_def get_due_reminder_mark_def TotalSeconds_def py_int_def Let_def)
  have times: "scheduled_times ?evs = [600000000]" by simp
  show ?thesis
    using scheduled_print_due_and_once [of ?evs 0 0] run times by simp
qed

text \<open>
  Scheduling a second job replaces the first one in the slot; cancelling empties it.
\<close>

theorem scheduler_single_pending_job_witness:
  "job_ref (run_events [SchedulePrint 100 [1], SchedulePrint 200 [2]]) = Some 1 \<and>
   length (jobs (run_events [SchedulePrint 100 [1], SchedulePrint 200 [2]])) = 2 \<and>
   job_ref (step (run_events [SchedulePrint 100 [1], SchedulePrint 200 [2]]) CancelSchedule)
     = None \<and>
   job_ref (process_schedule 200 200 (run_events [SchedulePrint 100 [1], SchedulePrint 200 [2]]))
     = None \<and>
   print_runs (process_schedule 200 200
       (run_events [SchedulePrint 100 [1], SchedulePrint 200 [2]])) = [(1, 200)]"
proof -
  let ?evs = "[SchedulePrint 100 [1], SchedulePrint 200 [2]]"
  have run: "run_events ?evs =
      \<lparr>jobs = [\<lparr>RunAt = 100, TargetSheets = [1], IsRunning = False, RemindersShown = {}\<rparr>,
               \<lparr>RunAt = 200, TargetSheets = [2], IsRunning = False, RemindersShown = {}\<rparr>],
       job_ref = Some 1, reminders = [], print_runs = []\<rparr>"
    by (simp add: run_events_def PrintScheduler_init_def schedule_print_def set_job_def
        ScheduledJob_init_def)
  have poll: "print_runs (process_schedule 200 200 (run_events ?evs)) = [(1, 200)]"
    unfolding run by (simp add: process_schedule_def Let_def)
  show ?thesis
    using scheduler_single_pending_job [of ?evs 0 "[]" None 200 200] run poll by simp
qed

section \<open>Reminders: properties\<close>

lemma get_due_reminder_mark_unshown:
  assumes "get_due_reminder_mark job remaining = Some m"
  shows "m \<notin> RemindersShown job \<and> 0 < m"
  using assms
  by (auto simp: get_due_reminder_mark_def Let_def split: if_splits)

lemma handle_reminders_cases:
  assumes "handle_reminders job now = (job', shown)"
  shows "(shown = None \<and> job' = job) \<or>
         (\<exists>m. shown = Some m \<and> m \<notin> RemindersShown job \<and>
              job' = job\<lparr>RemindersShown := insert m (RemindersShown job)\<rparr>)"
proof (cases "get_due_reminder_mark job (TotalSeconds (RunAt job - now))")
  case None
  then show ?thesis using assms by (simp add: handle_reminders_def Let_def)
next
  case (Some m)
  from get_due_reminder_mark_unshown [OF Some] have "m \<notin> RemindersShown job" "m \<noteq> 0"
    by simp_all
  have "handle_reminders job now =
      (job\<lparr>RemindersShown := insert m (RemindersShown job)\<rparr>, Some m)"
    using Some \<open>m \<noteq> 0\<close> by (simp add: handle_reminders_def Let_def)
  with assms have "shown = Some m"
    and "job' = job\<lparr>RemindersShown := insert m (RemindersShown job)\<rparr>"
    by simp_all
  then show ?thesis using \<open>m \<notin> RemindersShown job\<close> by blast
qed

lemma reminders_inv_init: "reminders_inv PrintScheduler_init"
  by (simp add: reminders_inv_def PrintScheduler_init_def)

lemma reminders_inv_schedule_print:
  assumes "reminders_inv s"
  shows "reminders_inv (schedule_print run_at sheets s)"
proof -
  from assms have old: "list_all (\<lambda>(r, m). r < length (jobs s) \<and>
      m \<in> RemindersShown (jobs s ! r)) (reminders s)"
    and dist: "distinct (reminders s)"
    by (simp_all add: reminders_inv_def)
  have "list_all (\<lambda>(r, m). r < Suc (length (jobs s)) \<and>
      m \<in> RemindersShown ((jobs s @ [ScheduledJob_init run_at sheets]) ! r)) (reminders s)"
    using old by (auto simp: list_all_iff nth_append)
  then show ?thesis using dist
    by (simp add: reminders_inv_def schedule_print_def set_job_def)
qed

lemma reminders_inv_process_schedule:
  assumes inv: "reminders_inv s"
  shows "reminders_inv (process_schedule now now_reminder s)"
proof (cases "job_ref s")
  case None
  then show ?thesis using inv by (simp add: process_schedule_def)
next
  case (Some r)
  from inv have all: "list_all (\<lambda>(r, m). r < length (jobs s) \<and>
      m \<in> RemindersShown (jobs s ! r)) (reminders s)"
    and dist: "distinct (reminders s)"
    by (simp_all add: reminders_inv_def)
  have old: "q < length (jobs s) \<and> m \<in> RemindersShown (jobs s ! q)"
    if "(q, m) \<in> set (reminders s)" for q m
    using that all by (auto simp: list_all_iff)
  let ?job = "jobs s ! r"
  show ?thesis
  proof (cases "length (jobs s) \<le> r \<or> IsRunning ?job")
    case True
    then show ?thesis using inv Some by (auto simp: process_schedule_def Let_def)
  next
    case go: False
    then have rlt: "r < length (jobs s)" by simp
    show ?thesis
    proof (cases "now < RunAt ?job")
      case False
      have st: "process_schedule now now_reminder s =
          s\<lparr>jobs := (jobs s)[r := ?job\<lparr>IsRunning := True\<rparr>], job_ref := None,
            print_runs := print_runs s @ [(r, now)]\<rparr>"
        using Some go False by (simp add: process_schedule_def Let_def)
      have "list_all (\<lambda>(q, m). q < length (jobs s) \<and>
          m \<in> RemindersShown ((jobs s)[r := ?job\<lparr>IsRunning := True\<rparr>] ! q)) (reminders s)"
        unfolding list_all_iff
      proof (intro ballI, clarify)
        fix q m assume "(q, m) \<in> set (reminders s)"
        from old [OF this] show "q < length (jobs s) \<and>
            m \<in> RemindersShown ((jobs s)[r := ?job\<lparr>IsRunning := True\<rparr>] ! q)"
          by (cases "q = r") simp_all
      qed
      then show ?thesis unfolding st using dist by (simp add: reminders_inv_def)
    next
      case True
      obtain job' shown where h: "handle_reminders ?job now_reminder = (job', shown)"
        by (cases "handle_reminders ?job now_reminder")
      have st: "process_schedule now now_reminder s =
          s\<lparr>jobs := (jobs s)[r := job'],
            reminders := reminders s @ (case shown of None \<Rightarrow> [] | Some m \<Rightarrow> [(r, m)])\<rparr>"
        using Some go True h by (simp add: process_schedule_def Let_def)
      from handle_reminders_cases [OF h] show ?thesis
      proof
        assume "shown = None \<and> job' = ?job"
        then show ?thesis unfolding st using inv by (simp add: reminders_inv_def)
      next
        assume "\<exists>m. shown = Some m \<and> m \<notin> RemindersShown ?job \<and>
              job' = ?job\<lparr>RemindersShown := insert m (RemindersShown ?job)\<rparr>"
        then obtain m where sh: "shown = Some m" and new: "m \<notin> RemindersShown ?job"
          and j': "job' = ?job\<lparr>RemindersShown := insert m (RemindersShown ?job)\<rparr>"
          by blast
        have fresh: "(r, m) \<notin> set (reminders s)"
          using old [of r m] new by blast
        have "list_all (\<lambda>(q, k). q < length (jobs s) \<and>
            k \<in> RemindersShown ((jobs s)[r := job'] ! q)) (reminders s)"
          unfolding list_all_iff
        proof (intro ballI, clarify)
          fix q k assume "(q, k) \<in> set (reminders s)"
          from old [OF this] show "q < length (jobs s) \<and>
              k \<in> RemindersShown ((jobs s)[r := job'] ! q)"
            by (cases "q = r") (simp_all add: j')
        qed
        then show ?thesis unfolding st using dist fresh rlt sh
          by (simp add: reminders_inv_def j')
      qed
    qed
  qed
qed

lemma reminders_inv_step:
  assumes "reminders_inv s"
  shows "reminders_inv (step s e)"
proof (cases e)
  case (SchedulePrint run_at sh)
  then show ?thesis using assms by (simp add: reminders_inv_schedule_print)
next
  case CancelSchedule
  then show ?thesis using assms by (simp add: reminders_inv_def cancel_job_def)
next
  case (Idling now nr)
  then show ?thesis using assms by (simp add: on_idling_def reminders_inv_process_schedule)
next
  case (TimerTick now nr)
  then show ?thesis using assms by (simp add: on_timer_tick_def reminders_inv_process_schedule)
qed

lemma reminders_inv_foldl:
  assumes "reminders_inv s"
  shows "reminders_inv (foldl step s evs)"
  using assms by (induction evs arbitrary: s) (simp_all add: reminders_inv_step)

lemma reminders_inv_run_events: "reminders_inv (run_events evs)"
  by (simp add: run_events_def reminders_inv_foldl reminders_inv_init)

lemma round_up_to_ten:
  fixes n :: int
  assumes "10 < n" and "n \<le> 60"
  shows "((n + 9) div 10) * 10 mod 10 = 0" and "n \<le> ((n + 9) div 10) * 10"
    and "((n + 9) div 10) * 10 < n + 10" and "20 \<le> ((n + 9) div 10) * 10"
    and "((n + 9) div 10) * 10 \<le> 60"
  using assms by presburger+

lemma py_int_positive:
  assumes "0 < py_int x"
  shows "\<not> x \<le> 0"
proof
  assume "x \<le> 0"
  then have "py_int x \<le> 0"
    by (cases "x = 0") (simp_all add: py_int_def ceiling_le_zero)
  with assms show False by simp
qed

text \<open>
  Claim C8, as amended. The mark is computed from the remaining time truncated to whole
  seconds, \<open>n = int(remaining_seconds)\<close>: no mark when the remaining time or \<open>n\<close> is
  zero or negative; \<open>n\<close> itself for \<open>1 \<le> n \<le> 10\<close>; for \<open>11 \<le> n \<le> 60\<close> the
  least multiple of ten that is at least \<open>n\<close>, which lies between 20 and 60; the mark
  300 for \<open>61 \<le> n \<le> 300\<close>; no mark above 300. A mark that is in the job's
  \<open>RemindersShown\<close> is withheld, \<open>_handle_reminders\<close> records the mark it shows, and in
  every state the scheduler reaches no (job, mark) reminder was shown twice.
\<close>

theorem due_reminder_mark_whole_seconds:
  "(remaining \<le> 0 \<or> py_int remaining \<le> 0 \<longrightarrow>
      get_due_reminder_mark job remaining = None) \<and>
   (1 \<le> py_int remaining \<and> py_int remaining \<le> 10 \<longrightarrow>
      get_due_reminder_mark job remaining =
        (if py_int remaining \<in> RemindersShown job then None else Some (py_int remaining))) \<and>
   (11 \<le> py_int remaining \<and> py_int remaining \<le> 60 \<longrightarrow>
      (\<exists>m. m mod 10 = 0 \<and> py_int remaining \<le> m \<and> m < py_int remaining + 10 \<and>
           20 \<le> m \<and> m \<le> 60 \<and>
           get_due_reminder_mark job remaining =
             (if m \<in> RemindersShown job then None else Some m))) \<and>
   (61 \<le> py_int remaining \<and> py_int remaining \<le> 300 \<longrightarrow>
      get_due_reminder_mark job remaining =
        (if 300 \<in> RemindersShown job then None else Some 300)) \<and>
   (300 < py_int remaining \<longrightarrow> get_due_reminder_mark job remaining = None) \<and>
   (\<forall>m. get_due_reminder_mark job remaining = Some m \<longrightarrow> m \<notin> RemindersShown job) \<and>
   (\<forall>job' m. handle_reminders job now = (job', Some m) \<longrightarrow>
      m \<in> RemindersShown job' \<and> get_due_reminder_mark job' remaining \<noteq> Some m) \<and>
   distinct (reminders (run_events evs)) \<and>
   list_all (\<lambda>(r, m). r < length (jobs (run_events evs)) \<and>
                      m \<in> RemindersShown (jobs (run_events evs) ! r))
     (reminders (run_events evs))"
proof -
  let ?n = "py_int remaining"
  let ?g = "get_due_reminder_mark job remaining"
  have none: "remaining \<le> 0 \<or> ?n \<le> 0 \<longrightarrow> ?g = None"
    by (auto simp: get_due_reminder_mark_def Let_def)
  have final: "1 \<le> ?n \<and> ?n \<le> 10 \<longrightarrow>
      ?g = (if ?n \<in> RemindersShown job then None else Some ?n)"
  proof
    assume a: "1 \<le> ?n \<and> ?n \<le> 10"
    then have "\<not> remaining \<le> 0" using py_int_positive [of remaining] by simp
    then show "?g = (if ?n \<in> RemindersShown job then None else Some ?n)"
      using a by (simp add: get_due_reminder_mark_def Let_def)
  qed
  have tens: "11 \<le> ?n \<and> ?n \<le> 60 \<longrightarrow>
      (\<exists>m. m mod 10 = 0 \<and> ?n \<le> m \<and> m < ?n + 10 \<and> 20 \<le> m \<and> m \<le> 60 \<and>
           ?g = (if m \<in> RemindersShown job then None else Some m))"
  proof
    assume a: "11 \<le> ?n \<and> ?n \<le> 60"
    then have pos: "\<not> remaining \<le> 0" using py_int_positive [of remaining] by simp
    let ?m = "((?n + 9) div 10) * 10"
    from a have r: "10 < ?n" "?n \<le> 60" by simp_all
    note f = round_up_to_ten [OF r]
    have g: "?g = (if ?m \<in> RemindersShown job then None else Some ?m)"
      using a pos f(4,5) by (simp add: get_due_reminder_mark_def Let_def)
    show "\<exists>m. m mod 10 = 0 \<and> ?n \<le> m \<and> m < ?n + 10 \<and> 20 \<le> m \<and> m \<le> 60 \<and>
           ?g = (if m \<in> RemindersShown job then None else Some m)"
      by (rule exI [of _ ?m]) (simp only: f g simp_thms)
  qed
  have five: "61 \<le> ?n \<and> ?n \<le> 300 \<longrightarrow>
      ?g = (if 300 \<in> RemindersShown job then None else Some 300)"
  proof
    assume a: "61 \<le> ?n \<and> ?n \<le> 300"
    then have "\<not> remaining \<le> 0" using py_int_positive [of remaining] by simp
    then show "?g = (if 300 \<in> RemindersShown job then None else Some 300)"
      using a by (simp add: get_due_reminder_mark_def Let_def)
  qed
  have far: "300 < ?n \<longrightarrow> ?g = None"
    by (simp add: get_due_reminder_mark_def Let_def)
  have withheld: "\<forall>m. ?g = Some m \<longrightarrow> m \<notin> RemindersShown job"
    using get_due_reminder_mark_unshown [of job remaining] by blast
  have recorded: "\<forall>job' m. handle_reminders job now = (job', Some m) \<longrightarrow>
      m \<in> RemindersShown job' \<and> get_due_reminder_mark job' remaining \<noteq> Some m"
  proof (intro allI impI)
    fix job' m
    assume h: "handle_reminders job now = (job', Some m)"
    from handle_reminders_cases [OF h] have "m \<in> RemindersShown job'" by auto
    then show "m \<in> RemindersShown job' \<and> get_due_reminder_mark job' remaining \<noteq> Some m"
      using get_due_reminder_mark_unshown [of job' remaining m] by blast
  qed
  have inv: "reminders_inv (run_events evs)" by (rule reminders_inv_run_events)
  then have once: "distinct (reminders (run_events evs))"
    and rec: "list_all (\<lambda>(r, m). r < length (jobs (run_events evs)) \<and>
                      m \<in> RemindersShown (jobs (run_events evs) ! r))
     (reminders (run_events evs))"
    by (simp_all add: reminders_inv_def)
  from none final tens five far withheld recorded once rec show ?thesis by blast
qed

text \<open>
  With 59.5 seconds left the mark is 60; once 60 is recorded it is withheld. Polling a
  job due after 61 seconds at 0 s, at 1 s and twice at 2 s shows the five-minute mark
  once and the 60-second mark once.
\<close>

theorem due_reminder_mark_whole_seconds_witness:
  "get_due_reminder_mark
     \<lparr>RunAt = 0, TargetSheets = [], IsRunning = False, RemindersShown = {}\<rparr> (119 / 2)
     = Some 60 \<and>
   get_due_reminder_mark
     \<lparr>RunAt = 0, TargetSheets = [], IsRunning = False, RemindersShown = {60}\<rparr> (119 / 2)
     = None \<and>
   reminders (run_events [SchedulePrint 610000000 [1], Idling 0 0, TimerTick 10000000 10000000,
       Idling 20000000 20000000, TimerTick 20000000 20000000]) = [(0, 300), (0, 60)]"
proof -
  let ?j0 = "\<lparr>RunAt = 0, TargetSheets = [], IsRunning = False, RemindersShown = {}\<rparr>"
  let ?j1 = "\<lparr>RunAt = 0, TargetSheets = [], IsRunning = False, RemindersShown = {60::int}\<rparr>"
  let ?evs = "[SchedulePrint 610000000 [1], Idling 0 0, TimerTick 10000000 10000000,
       Idling 20000000 20000000, TimerTick 20000000 20000000]"
  have "\<lfloor>119 / 2 :: rat\<rfloor> = 59" by (rule floor_unique) simp_all
  then have n: "py_int (119 / 2) = 59" by (simp add: py_int_def)
  have a: "get_due_reminder_mark ?j0 (119 / 2) = Some 60"
    by (simp add: get_due_reminder_mark_def Let_def n)
  have b: "get_due_reminder_mark ?j1 (119 / 2) = None"
    by (simp add: get_due_reminder_mark_def Let_def n)
  have c: "reminders (run_events ?evs) = [(0, 300), (0, 60)]"
    by (simp add: run_events_def PrintScheduler_init_def schedule_print_def set_job_def
        ScheduledJob_init_def on_idling_def on_timer_tick_def process_schedule_def
        handle_reminders_def get_due_reminder_mark_def TotalSeconds_def py_int_def Let_def)
  show ?thesis
    using a b c due_reminder_mark_whole_seconds [of "119 / 2" ?j1 0 ?evs] n by simp
qed

text \<open>
  The claim as it was stated has the mark be the remaining time rounded up to a
  multiple of ten and kept within 20..60. With 20.5 seconds left that is 30; the
  function truncates to 20 whole seconds first and yields the mark 20.
\<close>

theorem due_reminder_mark_counterexample:
  "get_due_reminder_mark
     \<lparr>RunAt = 0, TargetSheets = [], IsRunning = False, RemindersShown = {}\<rparr> (41 / 2)
     = Some 20 \<and>
   max 20 (min 60 (10 * \<lceil>(41 / 2 :: rat) / 10\<rceil>)) = (30 :: int)"
proof -
  have "\<lfloor>41 / 2 :: rat\<rfloor> = 20" by (rule floor_unique) simp_all
  then have n: "py_int (41 / 2) = 20" by (simp add: py_int_def)
  have c: "\<lceil>41 / 20 :: rat\<rceil> = 3" by (rule ceiling_unique) simp_all
  show ?thesis by (simp add: get_due_reminder_mark_def Let_def n c)
qed

section \<open>The three cleanup scripts: properties\<close>

lemma run_that_exits:
  "single_confirmed_transaction [TaskDialogShow d, ScriptExit]"
  "\<not> starts_transaction [TaskDialogShow d, ScriptExit]"
  "\<not> modifies_document [TaskDialogShow d, ScriptExit]"
  "apply_calls host_delete [TaskDialogShow d, ScriptExit] doc = doc"
  by (cases d; simp add: single_confirmed_transaction_def starts_transaction_def
      modifies_document_def)+

lemma run_that_deletes:
  "single_confirmed_transaction
     [TaskDialogShow (Confirm counts), TransactionStart name, DocDelete ids, TransactionCommit]"
  "starts_transaction
     [TaskDialogShow (Confirm counts), TransactionStart name, DocDelete ids, TransactionCommit]"
  "modifies_document
     [TaskDialogShow (Confirm counts), TransactionStart name, DocDelete ids, TransactionCommit]"
  "apply_calls host_delete
     [TaskDialogShow (Confirm counts), TransactionStart name, DocDelete ids, TransactionCommit]
     doc = host_delete ids doc"
  by (simp_all add: single_confirmed_transaction_def starts_transaction_def
      modifies_document_def)

lemma clean_design_options_run:
  "single_confirmed_transaction (clean_design_options has_doc option_ids set_ids res) \<and>
   starts_transaction (clean_design_options has_doc option_ids set_ids res) =
     (has_doc \<and> set (option_ids @ set_ids) \<noteq> {} \<and> res = Yes) \<and>
   modifies_document (clean_design_options has_doc option_ids set_ids res) =
     (has_doc \<and> set (option_ids @ set_ids) \<noteq> {} \<and> res = Yes) \<and>
   apply_calls host_delete (clean_design_options has_doc option_ids set_ids res) doc =
     (if has_doc \<and> set (option_ids @ set_ids) \<noteq> {} \<and> res = Yes
      then host_delete (set (option_ids @ set_ids)) doc else doc)"
  by (simp add: clean_design_options_def run_that_exits run_that_deletes)

lemma delete_detail_lines_groups_run:
  "single_confirmed_transaction (delete_detail_lines_groups has_doc dg mg c res) \<and>
   starts_transaction (delete_detail_lines_groups has_doc dg mg c res) =
     (has_doc \<and> detail_ids_to_delete dg mg c \<noteq> {} \<and> res = Yes) \<and>
   modifies_document (delete_detail_lines_groups has_doc dg mg c res) =
     (has_doc \<and> detail_ids_to_delete dg mg c \<noteq> {} \<and> res = Yes) \<and>
   apply_calls host_delete (delete_detail_lines_groups has_doc dg mg c res) doc =
     (if has_doc \<and> detail_ids_to_delete dg mg c \<noteq> {} \<and> res = Yes
      then host_delete (detail_ids_to_delete dg mg c) doc else doc)"
  by (simp add: delete_detail_lines_groups_def Let_def run_that_exits run_that_deletes)

lemma delete_ungrouped_elements_run:
  "single_confirmed_transaction (delete_ungrouped_elements has_doc dc rd c res) \<and>
   starts_transaction (delete_ungrouped_elements has_doc dc rd c res) =
     (has_doc \<and> fst (ids_to_delete dc rd c) \<noteq> {} \<and> res = Yes) \<and>
   modifies_document (delete_ungrouped_elements has_doc dc rd c res) =
     (has_doc \<and> fst (ids_to_delete dc rd c) \<noteq> {} \<and> res = Yes) \<and>
   apply_calls host_delete (delete_ungrouped_elements has_doc dc rd c res) doc =
     (if has_doc \<and> fst (ids_to_delete dc rd c) \<noteq> {} \<and> res = Yes
      then host_delete (fst (ids_to_delete dc rd c)) doc else doc)"
proof -
  obtain ids counts where p: "ids_to_delete dc rd c = (ids, counts)"
    by (cases "ids_to_delete dc rd c")
  show ?thesis
    by (simp add: delete_ungrouped_elements_def p run_that_exits run_that_deletes)
qed

text \<open>
  Claim C5. In each of the three cleanup scripts every \<open>doc.Delete\<close> lies inside a
  transaction, at most one transaction is started, and it is started only after the
  confirmation dialog; a transaction is started, and the document modified, exactly
  when there is a document, the collected set of ids is not empty and the dialog
  returned Yes. In every other run the document is left as it was.
\<close>

theorem cleanup_scripts_single_transaction:
  "(single_confirmed_transaction (clean_design_options has_doc option_ids set_ids res) \<and>
    starts_transaction (clean_design_options has_doc option_ids set_ids res) =
      (has_doc \<and> set (option_ids @ set_ids) \<noteq> {} \<and> res = Yes) \<and>
    modifies_document (clean_design_options has_doc option_ids set_ids res) =
      (has_doc \<and> set (option_ids @ set_ids) \<noteq> {} \<and> res = Yes) \<and>
    apply_calls host_delete (clean_design_options has_doc option_ids set_ids res) doc =
      (if has_doc \<and> set (option_ids @ set_ids) \<noteq> {} \<and> res = Yes
       then host_delete (set (option_ids @ set_ids)) doc else doc)) \<and>
   (single_confirmed_transaction (delete_detail_lines_groups has_doc dg mg dcol res) \<and>
    starts_transaction (delete_detail_lines_groups has_doc dg mg dcol res) =
      (has_doc \<and> detail_ids_to_delete dg mg dcol \<noteq> {} \<and> res = Yes) \<and>
    modifies_document (delete_detail_lines_groups has_doc dg mg dcol res) =
      (has_doc \<and> detail_ids_to_delete dg mg dcol \<noteq> {} \<and> res = Yes) \<and>
    apply_calls host_delete (delete_detail_lines_groups has_doc dg mg dcol res) doc =
      (if has_doc \<and> detail_ids_to_delete dg mg dcol \<noteq> {} \<and> res = Yes
       then host_delete (detail_ids_to_delete dg mg dcol) doc else doc)) \<and>
   (single_confirmed_transaction (delete_ungrouped_elements has_doc dc rd ucol res) \<and>
    starts_transaction (delete_ungrouped_elements has_doc dc rd ucol res) =
      (has_doc \<and> fst (ids_to_delete dc rd ucol) \<noteq> {} \<and> res = Yes) \<and>
    modifies_document (delete_ungrouped_elements has_doc dc rd ucol res) =
      (has_doc \<and> fst (ids_to_delete dc rd ucol) \<noteq> {} \<and> res = Yes) \<and>
    apply_calls host_delete (delete_ungrouped_elements has_doc dc rd ucol res) doc =
      (if has_doc \<and> fst (ids_to_delete dc rd ucol) \<noteq> {} \<and> res = Yes
       then host_delete (fst (ids_to_delete dc rd ucol)) doc else doc))"
  using clean_design_options_run [of has_doc option_ids set_ids res host_delete doc]
    delete_detail_lines_groups_run [of has_doc dg mg dcol res host_delete doc]
    delete_ungrouped_elements_run [of has_doc dc rd ucol res host_delete doc]
  by blast

text \<open>
  Two design options and one set: answered No, the run makes no change to a document
  holding the elements 1 to 4; answered Yes, it deletes the three ids in one
  transaction. The document is the set of its element ids and \<open>doc.Delete\<close> removes
  the ids it is given.
\<close>

theorem cleanup_scripts_single_transaction_witness:
  "starts_transaction (clean_design_options True [1, 2] [3] No) = False \<and>
   apply_calls (\<lambda>ids doc. doc - ids) (clean_design_options True [1, 2] [3] No) {1, 2, 3, 4}
     = {1, 2, 3, 4 :: int} \<and>
   clean_design_options True [1, 2] [3] Yes =
     [TaskDialogShow (Confirm [1, 2]), TransactionStart ''Clean Design Options'',
      DocDelete {1, 2, 3}, TransactionCommit] \<and>
   apply_calls (\<lambda>ids doc. doc - ids) (clean_design_options True [1, 2] [3] Yes) {1, 2, 3, 4}
     = {4 :: int}"
proof -
  let ?c = "\<lparr>detail_curve_ids = [], group_instances = [], group_types = []\<rparr>"
  let ?u = "\<lparr>curve_elements = [], filled_regions = [], independent_tags = [], areas = [],
      rooms = [], masking_regions = [], text_notes = [], family_instances = []\<rparr>"
  have no: "starts_transaction (clean_design_options True [1, 2] [3] No) = False \<and>
      apply_calls (\<lambda>ids doc. doc - ids) (clean_design_options True [1, 2] [3] No)
        {1, 2, 3, 4} = {1, 2, 3, 4 :: int}"
    using cleanup_scripts_single_transaction
      [of True "[1, 2]" "[3]" No "\<lambda>ids doc. doc - ids" "{1, 2, 3, 4}" 0 0 ?c 0 0 ?u]
    by simp
  have yes: "clean_design_options True [1, 2] [3] Yes =
     [TaskDialogShow (Confirm [1, 2]), TransactionStart ''Clean Design Options'',
      DocDelete {1, 2, 3}, TransactionCommit]"
    by (simp add: clean_design_options_def insert_commute)
  have del: "apply_calls (\<lambda>ids doc. doc - ids) (clean_design_options True [1, 2] [3] Yes)
      {1, 2, 3, 4} = {4 :: int}"
    unfolding yes by auto
  show ?thesis using no yes del by simp
qed

section \<open>Reading the ledger: properties\<close>

lemma upt_Suc_shift: "[0..<Suc n] = 0 # map Suc [0..<n]"
  by (simp add: upt_conv_Cons map_Suc_upt del: upt_Suc)

lemma filter_index_Cons:
  "filter (\<lambda>j. Q ((v # rest) ! j)) [0..<length (v # rest)] =
     (if Q v then [0] else []) @ map Suc (filter (\<lambda>j. Q (rest ! j)) [0..<length rest])"
proof -
  have "filter (\<lambda>j. Q ((v # rest) ! j)) [0..<length (v # rest)] =
        filter (\<lambda>j. Q ((v # rest) ! j)) (0 # map Suc [0..<length rest])"
    using upt_Suc_shift [of "length rest"] by simp
  also have "\<dots> = (if Q v then [0] else []) @
        map Suc (filter (\<lambda>j. Q (rest ! j)) [0..<length rest])"
    by (simp add: filter_map comp_def)
  finally show ?thesis .
qed

lemma build_headers_lookup:
  assumes "name \<noteq> []"
  shows "build_headers idx hs m name =
           (case m name of
              Some i \<Rightarrow> Some i
            | None \<Rightarrow>
                (case filter (\<lambda>j. lstrip_BOM (strip (hs ! j)) = name) [0..<length hs] of
                   [] \<Rightarrow> None
                 | j # others \<Rightarrow> Some (idx + j)))"
proof (induction hs arbitrary: idx m)
  case Nil
  then show ?case by (simp split: option.splits)
next
  case (Cons v rest)
  let ?key = "lstrip_BOM (strip v)"
  let ?Q = "\<lambda>c. lstrip_BOM (strip c) = name"
  note shift = filter_index_Cons [of ?Q v rest]
  show ?case
  proof (cases "?key \<noteq> [] \<and> m ?key = None")
    case add: True
    have st: "build_headers idx (v # rest) m = build_headers (idx + 1) rest (m(?key \<mapsto> idx))"
      using add by (simp add: to_text_def Let_def)
    show ?thesis
    proof (cases "?key = name")
      case True
      then show ?thesis
        unfolding st Cons.IH shift using add by simp
    next
      case False
      then have "(m(?key \<mapsto> idx)) name = m name" by simp
      then show ?thesis
        unfolding st Cons.IH shift using False
        by (simp split: option.splits list.splits)
    qed
  next
    case keep: False
    have st: "build_headers idx (v # rest) m = build_headers (idx + 1) rest m"
      using keep by (auto simp: to_text_def Let_def)
    show ?thesis
    proof (cases "?key = name")
      case True
      with keep assms obtain i where "m name = Some i" by auto
      then show ?thesis unfolding st Cons.IH by simp
    next
      case False
      then show ?thesis
        unfolding st Cons.IH shift
        by (simp split: option.splits list.splits)
    qed
  qed
qed

lemma described_column_dict_get:
  assumes "name \<noteq> []"
  shows "dict_get (build_headers 0 hs Map.empty) name dflt = described_column name dflt hs"
  unfolding dict_get_def described_column_def build_headers_lookup [OF assms]
  by (simp split: list.splits)

lemma safe_get_described: "safe_get row i = described_cell row i"
  by (simp add: safe_get_def described_cell_def to_text_def)

lemma normalize_empty:
  assumes "nfc [] = []"
  shows "normalize_match_text nfc (Some []) = []"
  using assms by (simp add: normalize_match_text_def strip_def lstrip_BOM_def)

lemma read_rows_loop_described:
  assumes "nfc [] = []"
  shows "read_rows_loop nfc f n m rows result =
           result @
           map (\<lambda>row. \<lparr>PrintFileName = described_cell row f,
                        DrawingName = normalize_match_text nfc (Some (described_cell row n)),
                        DrawingNumber = normalize_match_text nfc (Some (described_cell row m))\<rparr>)
             (filter (\<lambda>row. normalize_match_text nfc (Some (described_cell row n)) \<noteq> [])
                rows)"
proof (induction rows arbitrary: result)
  case Nil
  then show ?case by simp
next
  case (Cons row rest)
  show ?case
  proof (cases "row = []")
    case True
    then have "normalize_match_text nfc (Some (described_cell row n)) = []"
      using normalize_empty [of nfc, OF assms] by (simp add: described_cell_def)
    then show ?thesis using True Cons.IH by simp
  next
    case False
    then show ?thesis
      using Cons.IH by (simp add: Let_def safe_get_described)
  qed
qed

lemma header_names_nonempty:
  "HEADER_FILE_NAME \<noteq> []" "HEADER_DRAWING_NAME \<noteq> []" "HEADER_DRAWING_NUMBER \<noteq> []"
  by (simp_all add: HEADER_FILE_NAME_def HEADER_DRAWING_NAME_def HEADER_DRAWING_NUMBER_def
      U_def)

lemma read_print_rows_csv_rows:
  assumes "nfc [] = []"
  shows "read_print_rows_csv nfc fs path =
           (case fs path of None \<Rightarrow> [] | Some rows \<Rightarrow> described_rows nfc rows)"
proof (cases "fs path")
  case None
  then show ?thesis by (simp add: read_print_rows_csv_def)
next
  case (Some rows)
  show ?thesis
  proof (cases rows)
    case Nil
    then show ?thesis using Some by (simp add: read_print_rows_csv_def described_rows_def)
  next
    case (Cons header_row data)
    then show ?thesis
      using Some
      by (simp add: read_print_rows_csv_def described_rows_def Let_def
          described_column_dict_get header_names_nonempty
          read_rows_loop_described [of nfc, OF assms])
  qed
qed

text \<open>
  Claim C6. \<open>_read_print_rows_csv\<close> returns the empty list for a path with no file;
  for a file it takes the first row as the header, finds each of the three columns at
  the first header cell equal to its name after trimming and removal of leading byte
  order marks (columns 0, 1 and 2 when there is none), and returns the remaining rows
  in file order, leaving out every row whose drawing name is empty after normalisation
  and reading a cell that is out of range as the empty string. The canonical
  composition is taken to map the empty string to itself.
\<close>

theorem read_print_rows_csv_as_described:
  assumes "nfc [] = []"
  shows "read_print_rows_csv nfc fs path =
           (case fs path of None \<Rightarrow> [] | Some rows \<Rightarrow> described_rows nfc rows)"
  using assms by (rule read_print_rows_csv_rows)

text \<open>
  A file whose header names the drawing name first (after a byte order mark) and the
  file name second, with no drawing-number column: the empty row and the row with an
  empty drawing name are left out, and the missing cells read as empty strings.
\<close>

theorem read_print_rows_csv_as_described_witness:
  "read_print_rows_csv (\<lambda>t. t)
     (\<lambda>p. if p = U ''a.csv''
          then Some [[BOM # U ''Drawing Name'', U '' Printed File Name ''],
                     [U ''A101 '', U ''a.pdf''], [], [U '''', U ''x''], [U ''B'']]
          else None)
     (U ''a.csv'')
   = [\<lparr>PrintFileName = U ''a.pdf'', DrawingName = U ''A101'', DrawingNumber = []\<rparr>,
      \<lparr>PrintFileName = [], DrawingName = U ''B'', DrawingNumber = []\<rparr>] \<and>
   read_print_rows_csv (\<lambda>t. t)
     (\<lambda>p. if p = U ''a.csv''
          then Some [[BOM # U ''Drawing Name'', U '' Printed File Name ''],
                     [U ''A101 '', U ''a.pdf''], [], [U '''', U ''x''], [U ''B'']]
          else None)
     (U ''b.csv'')
   = []"
proof -
  let ?rows = "[[BOM # U ''Drawing Name'', U '' Printed File Name ''],
                     [U ''A101 '', U ''a.pdf''], [], [U '''', U ''x''], [U ''B'']]"
  let ?fs = "\<lambda>p. if p = U ''a.csv'' then Some ?rows else None"
  have id: "(\<lambda>t::ustr. t) [] = []" by simp
  have sp: "is_space 32" "\<not> is_space 65" "\<not> is_space 49" "\<not> is_space 66" "\<not> is_space 101"
    "\<not> is_space 102" "\<not> is_space 68" "\<not> is_space 80" "\<not> is_space 97" "\<not> is_space 120"
    "\<not> is_space BOM"
    by (simp_all add: is_space_def BOM_def)
  have cols: "described_column HEADER_FILE_NAME 0 (hd ?rows) = 1"
    "described_column HEADER_DRAWING_NAME 1 (hd ?rows) = 0"
    "described_column HEADER_DRAWING_NUMBER 2 (hd ?rows) = 2"
    using sp
    by (simp_all add: described_column_def HEADER_FILE_NAME_def HEADER_DRAWING_NAME_def
        HEADER_DRAWING_NUMBER_def strip_def lstrip_BOM_def U_def BOM_def upt_rec)
  have d: "described_rows (\<lambda>t. t) ?rows =
      [\<lparr>PrintFileName = U ''a.pdf'', DrawingName = U ''A101'', DrawingNumber = []\<rparr>,
       \<lparr>PrintFileName = [], DrawingName = U ''B'', DrawingNumber = []\<rparr>]"
    using cols sp
    by (simp add: described_rows_def Let_def described_cell_def normalize_match_text_def
        strip_def lstrip_BOM_def U_def BOM_def)
  have ne: "U ''b.csv'' \<noteq> U ''a.csv''" by (simp add: U_def)
  show ?thesis
    using read_print_rows_csv_as_described [of "\<lambda>t. t" ?fs "U ''a.csv''", OF id]
      read_print_rows_csv_as_described [of "\<lambda>t. t" ?fs "U ''b.csv''", OF id] d ne
    by simp
qed

section \<open>Combined printing in sheet order: properties\<close>


















section \<open>The ledger written and read back\<close>

lemma utf8_encode_ascii:
  assumes "list_all (\<lambda>c. c < 128) t"
  shows "utf8_encode t = Some t"
  using assms by (induction t) simp_all

lemma csv_cell_ledger_text:
  assumes "ledger_text t"
  shows "csv_cell (Some t) = t"
  using assms by (simp add: csv_cell_def to_text_def ledger_text_def utf8_encode_ascii)

lemma normalize_ledger_text:
  assumes nfc: "\<forall>t. list_all (\<lambda>c. c < 128) t \<longrightarrow> nfc t = t"
    and t: "ledger_text t"
  shows "normalize_match_text nfc (Some t) = t"
    and "normalize_match_text nfc (Some (strip t)) = t"
proof -
  from t have a: "list_all (\<lambda>c. c < 128) t" and s: "strip t = t"
    by (simp_all add: ledger_text_def)
  have "BOM \<notin> set t" using a by (auto simp: list_all_iff BOM_def)
  then have b: "lstrip_BOM t = t" by (cases t) (simp_all add: lstrip_BOM_def)
  from nfc a have n: "nfc t = t" by simp
  show "normalize_match_text nfc (Some t) = t"
    by (simp add: normalize_match_text_def s b n)
  then show "normalize_match_text nfc (Some (strip t)) = t" by (simp add: s)
qed

lemma mapped_values_of_single:
  assumes "nfc [] = []"
    and "mapped_name = PyNone \<or> (\<exists>t. mapped_name = PyStr t)"
  shows "mapped_values_of nfc mapped_name d =
           [case mapped_name of
              PyStr t \<Rightarrow> if normalize_match_text nfc (Some t) \<noteq> []
                         then normalize_match_text nfc (Some t) else d
            | _ \<Rightarrow> d]"
proof (cases mapped_name)
  case PyNone
  then show ?thesis by (simp add: mapped_values_of_def)
next
  case (PyStr t)
  show ?thesis
  proof (cases "t = []")
    case True
    then have "normalize_match_text nfc (Some t) = []"
      using assms(1) by (simp add: normalize_match_text_def strip_def lstrip_BOM_def)
    then show ?thesis using PyStr True by (simp add: mapped_values_of_def)
  next
    case False
    then show ?thesis using PyStr by (simp add: mapped_values_of_def Let_def)
  qed
next
  case (PyList xs)
  with assms show ?thesis by simp
qed

lemma looked_up_value:
  assumes "\<forall>v\<in>ran name_map \<union> ran number_map. \<exists>t. v = PyStr t"
  shows "(case name_map n of Some v \<Rightarrow> v
          | None \<Rightarrow> (case number_map m of Some v \<Rightarrow> v | None \<Rightarrow> PyNone)) = PyNone \<or>
         (\<exists>t. (case name_map n of Some v \<Rightarrow> v
               | None \<Rightarrow> (case number_map m of Some v \<Rightarrow> v | None \<Rightarrow> PyNone)) = PyStr t)"
proof (cases "name_map n")
  case (Some v)
  then have "v \<in> ran name_map" by (auto simp: ran_def)
  with assms Some show ?thesis by auto
next
  case None
  show ?thesis
  proof (cases "number_map m")
    case (Some v)
    then have "v \<in> ran number_map" by (auto simp: ran_def)
    with assms Some None show ?thesis by auto
  next
    case n2: None
    with None show ?thesis by simp
  qed
qed

lemma ledger_row_file:
  "PrintFileName (ledger_row nfc name_map number_map s) =
     (case (case name_map (normalize_match_text nfc (Some (Name s))) of
              Some v \<Rightarrow> v
            | None \<Rightarrow>
                (case number_map (normalize_match_text nfc (Some (SheetNumber s))) of
                   Some v \<Rightarrow> v | None \<Rightarrow> PyNone)) of
        PyStr t \<Rightarrow> if normalize_match_text nfc (Some t) \<noteq> []
                   then normalize_match_text nfc (Some t)
                   else normalize_match_text nfc (Some (SheetNumber s)) @ U ''_'' @
                        normalize_match_text nfc (Some (Name s))
      | _ \<Rightarrow> normalize_match_text nfc (Some (SheetNumber s)) @ U ''_'' @
            normalize_match_text nfc (Some (Name s)))"
  by (cases "name_map (normalize_match_text nfc (Some (Name s)))";
      cases "number_map (normalize_match_text nfc (Some (SheetNumber s)))")
     (auto simp: ledger_row_def Let_def split: py_value.splits)

lemma ledger_row_fields:
  "ledger_row nfc name_map number_map s =
     \<lparr>PrintFileName = PrintFileName (ledger_row nfc name_map number_map s),
      DrawingName = normalize_match_text nfc (Some (Name s)),
      DrawingNumber = normalize_match_text nfc (Some (SheetNumber s))\<rparr>"
  by (simp add: ledger_row_def Let_def)

lemma sheet_rows_written:
  assumes nfc: "nfc [] = []"
    and vals: "\<forall>v\<in>ran name_map \<union> ran number_map. \<exists>t. v = PyStr t"
  shows "map (\<lambda>mapped_value.
              \<lparr>PrintFileName = mapped_value,
               DrawingName = normalize_match_text nfc (Some (Name s)),
               DrawingNumber = normalize_match_text nfc (Some (SheetNumber s))\<rparr>)
           (mapped_values_of nfc
              (case name_map (normalize_match_text nfc (Some (Name s))) of
                 Some v \<Rightarrow> v
               | None \<Rightarrow>
                   (case number_map (normalize_match_text nfc (Some (SheetNumber s))) of
                      Some v \<Rightarrow> v | None \<Rightarrow> PyNone))
              (normalize_match_text nfc (Some (SheetNumber s)) @ U ''_'' @
               normalize_match_text nfc (Some (Name s))))
         = [ledger_row nfc name_map number_map s]"
proof -
  let ?n = "normalize_match_text nfc (Some (Name s))"
  let ?m = "normalize_match_text nfc (Some (SheetNumber s))"
  let ?v = "case name_map ?n of Some v \<Rightarrow> v
            | None \<Rightarrow> (case number_map ?m of Some v \<Rightarrow> v | None \<Rightarrow> PyNone)"
  have "mapped_values_of nfc ?v (?m @ U ''_'' @ ?n) =
      [PrintFileName (ledger_row nfc name_map number_map s)]"
    unfolding ledger_row_file
    by (rule mapped_values_of_single [of nfc, OF nfc looked_up_value [OF vals]])
  then show ?thesis using ledger_row_fields [of nfc name_map number_map s] by simp
qed

lemma add_sheet_rows_appends:
  assumes nfc: "\<forall>t. list_all (\<lambda>c. c < 128) t \<longrightarrow> nfc t = t"
    and texts: "\<forall>s\<in>set sheets. ledger_texts (ledger_row nfc name_map number_map s)"
    and vals: "\<forall>v\<in>ran name_map \<union> ran number_map. \<exists>t. v = PyStr t"
    and dist: "distinct (map (\<lambda>s. normalize_match_text nfc (Some (Name s))) sheets)"
    and nonempty: "\<forall>s\<in>set sheets. normalize_match_text nfc (Some (Name s)) \<noteq> []"
    and fresh: "\<forall>r\<in>set ordered_rows. normalize_match_text nfc (Some (DrawingName r)) \<notin>
                  (\<lambda>s. normalize_match_text nfc (Some (Name s))) ` set sheets"
  shows "snd (add_sheet_rows nfc name_map number_map sheets row_by_name ordered_rows) =
           ordered_rows @ map (ledger_row nfc name_map number_map) sheets"
  using texts dist nonempty fresh
proof (induction sheets arbitrary: row_by_name ordered_rows)
  case Nil
  then show ?case by simp
next
  case (Cons s rest)
  let ?N = "\<lambda>s. normalize_match_text nfc (Some (Name s))"
  let ?n = "?N s"
  let ?m = "normalize_match_text nfc (Some (SheetNumber s))"
  let ?row = "ledger_row nfc name_map number_map s"
  have empty: "nfc [] = []" using nfc by simp
  from Cons.prems have n: "?n \<noteq> []" and notin: "?n \<notin> ?N ` set rest" by auto
  have name: "DrawingName ?row = ?n" by (simp add: ledger_row_def Let_def)
  from Cons.prems(1) have "ledger_text (DrawingName ?row)" by (simp add: ledger_texts_def)
  then have lt: "ledger_text ?n" using name by simp
  have keep: "filter (\<lambda>r. normalize_match_text nfc (Some (DrawingName r)) \<noteq> ?n) ordered_rows
      = ordered_rows"
    using Cons.prems(4) by (auto simp: filter_id_conv)
  have again: "normalize_match_text nfc (Some ?n) = ?n"
    by (rule normalize_ledger_text(1) [OF nfc lt])
  have fresh': "\<forall>r\<in>set (ordered_rows @ [?row]).
      normalize_match_text nfc (Some (DrawingName r)) \<notin> ?N ` set rest"
    using Cons.prems(4) notin name again by auto
  have rest_ok: "\<forall>s\<in>set rest. ledger_texts (ledger_row nfc name_map number_map s)"
    "distinct (map ?N rest)" "\<forall>s\<in>set rest. ?N s \<noteq> []"
    using Cons.prems by simp_all
  note ih = Cons.IH [OF rest_ok fresh']
  have step: "add_sheet_rows nfc name_map number_map (s # rest) row_by_name ordered_rows =
      add_sheet_rows nfc name_map number_map rest
        (row_by_name(?n \<mapsto> last (ordered_rows @ [?row]))) (ordered_rows @ [?row])"
    using n by (simp add: Let_def keep sheet_rows_written [of nfc, OF empty vals])
  show ?case unfolding step ih by simp
qed

lemma ledger_header_columns:
  "described_column HEADER_FILE_NAME 0
     [BOM_UTF8 @ csv_cell (Some HEADER_FILE_NAME), csv_cell (Some HEADER_DRAWING_NAME),
      csv_cell (Some HEADER_DRAWING_NUMBER)] = 0"
  "described_column HEADER_DRAWING_NAME 1
     [BOM_UTF8 @ csv_cell (Some HEADER_FILE_NAME), csv_cell (Some HEADER_DRAWING_NAME),
      csv_cell (Some HEADER_DRAWING_NUMBER)] = 1"
  "described_column HEADER_DRAWING_NUMBER 2
     [BOM_UTF8 @ csv_cell (Some HEADER_FILE_NAME), csv_cell (Some HEADER_DRAWING_NAME),
      csv_cell (Some HEADER_DRAWING_NUMBER)] = 2"
proof -
  have sp: "is_space 32" "\<not> is_space 65" "\<not> is_space 49" "\<not> is_space 50" "\<not> is_space 95"
    "\<not> is_space 101" "\<not> is_space 66" "\<not> is_space 114" "\<not> is_space 80" "\<not> is_space 68"
    "\<not> is_space 239"
    by (simp_all add: is_space_def)
  have cells: "csv_cell (Some HEADER_FILE_NAME) = HEADER_FILE_NAME"
    "csv_cell (Some HEADER_DRAWING_NAME) = HEADER_DRAWING_NAME"
    "csv_cell (Some HEADER_DRAWING_NUMBER) = HEADER_DRAWING_NUMBER"
    by (simp_all add: csv_cell_def to_text_def HEADER_FILE_NAME_def HEADER_DRAWING_NAME_def
        HEADER_DRAWING_NUMBER_def U_def)
  show "described_column HEADER_FILE_NAME 0
     [BOM_UTF8 @ csv_cell (Some HEADER_FILE_NAME), csv_cell (Some HEADER_DRAWING_NAME),
      csv_cell (Some HEADER_DRAWING_NUMBER)] = 0"
    "described_column HEADER_DRAWING_NAME 1
     [BOM_UTF8 @ csv_cell (Some HEADER_FILE_NAME), csv_cell (Some HEADER_DRAWING_NAME),
      csv_cell (Some HEADER_DRAWING_NUMBER)] = 1"
    "described_column HEADER_DRAWING_NUMBER 2
     [BOM_UTF8 @ csv_cell (Some HEADER_FILE_NAME), csv_cell (Some HEADER_DRAWING_NAME),
      csv_cell (Some HEADER_DRAWING_NUMBER)] = 2"
    unfolding cells using sp
    by (simp_all add: described_column_def HEADER_FILE_NAME_def HEADER_DRAWING_NAME_def
        HEADER_DRAWING_NUMBER_def strip_def lstrip_BOM_def U_def BOM_def BOM_UTF8_def upt_rec)
qed

lemma described_rows_ledger:
  assumes nfc: "\<forall>t. list_all (\<lambda>c. c < 128) t \<longrightarrow> nfc t = t"
    and texts: "\<forall>r\<in>set rows. ledger_texts r"
    and names: "\<forall>r\<in>set rows. DrawingName r \<noteq> []"
  shows "described_rows nfc
           ([BOM_UTF8 @ csv_cell (Some HEADER_FILE_NAME), csv_cell (Some HEADER_DRAWING_NAME),
             csv_cell (Some HEADER_DRAWING_NUMBER)] #
            map (\<lambda>row. [csv_cell (Some (PrintFileName row)), csv_cell (Some (DrawingName row)),
                         csv_cell (Some (DrawingNumber row))]) rows) = rows"
proof -
  let ?cells = "\<lambda>row. [csv_cell (Some (PrintFileName row)), csv_cell (Some (DrawingName row)),
                         csv_cell (Some (DrawingNumber row))]"
  have row: "ledger_texts r \<Longrightarrow>
      described_cell (?cells r) 0 = PrintFileName r \<and>
      normalize_match_text nfc (Some (described_cell (?cells r) 1)) = DrawingName r \<and>
      normalize_match_text nfc (Some (described_cell (?cells r) 2)) = DrawingNumber r" for r
    using normalize_ledger_text(2) [OF nfc]
    by (simp add: ledger_texts_def described_cell_def csv_cell_ledger_text)
      (simp add: ledger_text_def)
  have keep: "filter (\<lambda>row. normalize_match_text nfc (Some (described_cell row 1)) \<noteq> [])
      (map ?cells rows) = map ?cells rows"
    using texts names row by (auto simp: filter_id_conv)
  have same: "map (\<lambda>row. \<lparr>PrintFileName = described_cell row 0,
                     DrawingName = normalize_match_text nfc (Some (described_cell row 1)),
                     DrawingNumber = normalize_match_text nfc (Some (described_cell row 2))\<rparr>)
      (map ?cells rows) = rows"
    using texts
  proof (induction rows)
    case Nil
    then show ?case by simp
  next
    case (Cons r rest)
    from Cons.prems have "ledger_texts r" by simp
    from row [OF this] Cons show ?case by simp
  qed
  show ?thesis
    by (simp only: described_rows_def list.case ledger_header_columns Let_def keep same)
qed

lemma generate_or_update_csv_new:
  assumes "fs path = None"
  shows "generate_or_update_csv nfc fs path sheets name_map number_map path =
     Some ([BOM_UTF8 @ csv_cell (Some HEADER_FILE_NAME), csv_cell (Some HEADER_DRAWING_NAME),
            csv_cell (Some HEADER_DRAWING_NUMBER)] #
           map (\<lambda>row. [csv_cell (Some (PrintFileName row)), csv_cell (Some (DrawingName row)),
                        csv_cell (Some (DrawingNumber row))])
             (snd (add_sheet_rows nfc name_map number_map sheets Map.empty [])))"
  using assms
  by (simp add: generate_or_update_csv_def Let_def split_beta)

text \<open>
  Claim C3, as amended. Starting from a path with no file, for sheets whose normalised
  names are pairwise distinct and not empty, and dictionaries whose values are single
  strings, where the three texts of the row expected for each sheet consist of ASCII
  characters and have no white space at either end: writing the ledger with
  \<open>_generate_or_update_csv\<close> and reading it back with \<open>_read_print_rows_csv\<close> yields
  one row per sheet, in sheet order, with the normalised name and number of the sheet,
  and as file name the normalised value that the name map (or else the number map)
  holds for the sheet when that value is not empty, and \<open>number_name\<close> otherwise. The
  rows that \<open>csv.writer\<close> is given are taken to be the rows that \<open>csv.reader\<close> yields,
  and the canonical composition to leave ASCII text as it is.
\<close>

theorem ledger_round_trip:
  assumes "\<forall>t. list_all (\<lambda>c. c < 128) t \<longrightarrow> nfc t = t"
    and "fs path = None"
    and "\<forall>v\<in>ran name_map \<union> ran number_map. \<exists>t. v = PyStr t"
    and "distinct (map (\<lambda>s. normalize_match_text nfc (Some (Name s))) sheets)"
    and "\<forall>s\<in>set sheets. normalize_match_text nfc (Some (Name s)) \<noteq> []"
    and "\<forall>s\<in>set sheets. ledger_texts (ledger_row nfc name_map number_map s)"
  shows "read_print_rows_csv nfc
           (generate_or_update_csv nfc fs path sheets name_map number_map) path =
         map (ledger_row nfc name_map number_map) sheets"
proof -
  have empty: "nfc [] = []" using assms(1) by simp
  have rows: "snd (add_sheet_rows nfc name_map number_map sheets Map.empty []) =
      map (ledger_row nfc name_map number_map) sheets"
    using add_sheet_rows_appends [OF assms(1) assms(6) assms(3) assms(4) assms(5),
        of "[]" Map.empty]
    by simp
  have texts: "\<forall>r\<in>set (map (ledger_row nfc name_map number_map) sheets). ledger_texts r"
    using assms(6) by simp
  have names: "\<forall>r\<in>set (map (ledger_row nfc name_map number_map) sheets). DrawingName r \<noteq> []"
    using assms(5) by (simp add: ledger_row_def Let_def)
  show ?thesis
    unfolding read_print_rows_csv_rows [of nfc, OF empty]
      generate_or_update_csv_new [of fs path, OF assms(2)] rows
    using described_rows_ledger [OF assms(1) texts names] by simp
qed

text \<open>
  Two sheets, the first of them in the name map: the first comes back under the mapped
  file name, the second under its default.
\<close>

theorem ledger_round_trip_witness:
  "read_print_rows_csv (\<lambda>t. t)
     (generate_or_update_csv (\<lambda>t. t) (\<lambda>p. None) (U ''l.csv'')
        [\<lparr>Name = U ''A'', SheetNumber = U ''1''\<rparr>, \<lparr>Name = U ''B'', SheetNumber = U ''2''\<rparr>]
        [U ''A'' \<mapsto> PyStr (U ''P'')] Map.empty)
     (U ''l.csv'')
   = [\<lparr>PrintFileName = U ''P'', DrawingName = U ''A'', DrawingNumber = U ''1''\<rparr>,
      \<lparr>PrintFileName = U ''2_B'', DrawingName = U ''B'', DrawingNumber = U ''2''\<rparr>]"
proof -
  have sp: "\<not> is_space 65" "\<not> is_space 66" "\<not> is_space 49" "\<not> is_space 50" "\<not> is_space 80"
    "\<not> is_space 95"
    by (simp_all add: is_space_def)
  have n: "normalize_match_text (\<lambda>t. t) (Some (U ''A'')) = U ''A''"
    "normalize_match_text (\<lambda>t. t) (Some (U ''B'')) = U ''B''"
    "normalize_match_text (\<lambda>t. t) (Some (U ''1'')) = U ''1''"
    "normalize_match_text (\<lambda>t. t) (Some (U ''2'')) = U ''2''"
    "normalize_match_text (\<lambda>t. t) (Some (U ''P'')) = U ''P''"
    using sp
    by (simp_all add: normalize_match_text_def strip_def lstrip_BOM_def U_def BOM_def)
  have p: "ledger_text (U ''A'')" "ledger_text (U ''B'')" "ledger_text (U ''1'')"
    "ledger_text (U ''2'')" "ledger_text (U ''P'')" "ledger_text (U ''2_B'')"
    using sp by (simp_all add: ledger_text_def strip_def U_def)
  have ne: "U ''A'' \<noteq> U ''B''" "U ''B'' \<noteq> U ''A''" "U ''A'' \<noteq> []" "U ''B'' \<noteq> []" "U ''P'' \<noteq> []"
    by (simp_all add: U_def)
  have rows:
    "ledger_row (\<lambda>t. t) [U ''A'' \<mapsto> PyStr (U ''P'')] Map.empty
        \<lparr>Name = U ''A'', SheetNumber = U ''1''\<rparr> =
      \<lparr>PrintFileName = U ''P'', DrawingName = U ''A'', DrawingNumber = U ''1''\<rparr>"
    "ledger_row (\<lambda>t. t) [U ''A'' \<mapsto> PyStr (U ''P'')] Map.empty
        \<lparr>Name = U ''B'', SheetNumber = U ''2''\<rparr> =
      \<lparr>PrintFileName = U ''2_B'', DrawingName = U ''B'', DrawingNumber = U ''2''\<rparr>"
    using ne by (simp_all add: ledger_row_def Let_def n) (simp add: U_def)
  show ?thesis
    using ledger_round_trip [of "\<lambda>t. t" "\<lambda>p. None" "U ''l.csv''"
        "[U ''A'' \<mapsto> PyStr (U ''P'')]" Map.empty
        "[\<lparr>Name = U ''A'', SheetNumber = U ''1''\<rparr>, \<lparr>Name = U ''B'', SheetNumber = U ''2''\<rparr>]"]
    by (simp add: n p ne rows ledger_texts_def)
qed

text \<open>
  The claim as it was stated fails in four ways, shown here with the identity for the
  canonical composition, which leaves each of these texts as it is.
  \<^item> Two sheets named \<open>A\<close> and \<open>A\<close> followed by a blank have distinct, non-empty names,
    and one row comes back for the two of them.
  \<^item> A name map that holds the empty string for a sheet does not make the empty string
    the file name: the default \<open>1_A\<close> is written.
  \<^item> A sheet named U+00E9 has that name as its normalised name, and comes back under
    the two characters U+00C3 U+00A9, the bytes of its UTF-8 encoding.
  \<^item> A sheet named U+FEFF, blank, \<open>A\<close> has the normalised name blank, \<open>A\<close>, and comes
    back under the name \<open>A\<close>.
\<close>

theorem ledger_round_trip_counterexample:
  "read_print_rows_csv (\<lambda>t. t)
     (generate_or_update_csv (\<lambda>t. t) (\<lambda>p. None) (U ''l.csv'')
        [\<lparr>Name = U ''A'', SheetNumber = U ''1''\<rparr>, \<lparr>Name = U ''A '', SheetNumber = U ''2''\<rparr>]
        Map.empty Map.empty)
     (U ''l.csv'')
   = [\<lparr>PrintFileName = U ''2_A'', DrawingName = U ''A'', DrawingNumber = U ''2''\<rparr>] \<and>
   read_print_rows_csv (\<lambda>t. t)
     (generate_or_update_csv (\<lambda>t. t) (\<lambda>p. None) (U ''l.csv'')
        [\<lparr>Name = U ''A'', SheetNumber = U ''1''\<rparr>]
        [U ''A'' \<mapsto> PyStr []] Map.empty)
     (U ''l.csv'')
   = [\<lparr>PrintFileName = U ''1_A'', DrawingName = U ''A'', DrawingNumber = U ''1''\<rparr>] \<and>
   normalize_match_text (\<lambda>t. t) (Some [233]) = [233] \<and>
   read_print_rows_csv (\<lambda>t. t)
     (generate_or_update_csv (\<lambda>t. t) (\<lambda>p. None) (U ''l.csv'')
        [\<lparr>Name = [233], SheetNumber = U ''1''\<rparr>]
        Map.empty Map.empty)
     (U ''l.csv'')
   = [\<lparr>PrintFileName = [49, 95, 195, 169], DrawingName = [195, 169],
       DrawingNumber = U ''1''\<rparr>] \<and>
   normalize_match_text (\<lambda>t. t) (Some [BOM, 32, 65]) = [32, 65] \<and>
   read_print_rows_csv (\<lambda>t. t)
     (generate_or_update_csv (\<lambda>t. t) (\<lambda>p. None) (U ''l.csv'')
        [\<lparr>Name = [BOM, 32, 65], SheetNumber = U ''1''\<rparr>]
        Map.empty Map.empty)
     (U ''l.csv'')
   = [\<lparr>PrintFileName = [49, 95, 32, 65], DrawingName = U ''A'', DrawingNumber = U ''1''\<rparr>]"
proof -
  have sp: "is_space 32" "\<not> is_space 65" "\<not> is_space 49" "\<not> is_space 50" "\<not> is_space 95"
    "\<not> is_space 233" "\<not> is_space 195" "\<not> is_space 169" "\<not> is_space BOM"
    by (simp_all add: is_space_def BOM_def)
  let ?h = "[BOM_UTF8 @ csv_cell (Some HEADER_FILE_NAME), csv_cell (Some HEADER_DRAWING_NAME),
             csv_cell (Some HEADER_DRAWING_NUMBER)]"
  have n3: "normalize_match_text (\<lambda>t. t) (Some [233]) = [233]"
    using sp by (simp add: normalize_match_text_def strip_def lstrip_BOM_def BOM_def)
  have n4: "normalize_match_text (\<lambda>t. t) (Some [BOM, 32, 65]) = [32, 65]"
    using sp by (simp add: normalize_match_text_def strip_def lstrip_BOM_def) (simp add: BOM_def)
  have w1: "generate_or_update_csv (\<lambda>t. t) (\<lambda>p. None) (U ''l.csv'')
        [\<lparr>Name = U ''A'', SheetNumber = U ''1''\<rparr>, \<lparr>Name = U ''A '', SheetNumber = U ''2''\<rparr>]
        Map.empty Map.empty (U ''l.csv'') =
      Some [?h, [U ''2_A'', U ''A'', U ''2'']]"
    using sp
    by (simp add: generate_or_update_csv_def Let_def normalize_match_text_def strip_def
        lstrip_BOM_def mapped_values_of_def BOM_def)
      (simp add: csv_cell_def to_text_def U_def)
  have w2: "generate_or_update_csv (\<lambda>t. t) (\<lambda>p. None) (U ''l.csv'')
        [\<lparr>Name = U ''A'', SheetNumber = U ''1''\<rparr>]
        [U ''A'' \<mapsto> PyStr []] Map.empty (U ''l.csv'') =
      Some [?h, [U ''1_A'', U ''A'', U ''1'']]"
    using sp
    by (simp add: generate_or_update_csv_def Let_def normalize_match_text_def strip_def
        lstrip_BOM_def mapped_values_of_def BOM_def)
      (simp add: csv_cell_def to_text_def U_def)
  have w3: "generate_or_update_csv (\<lambda>t. t) (\<lambda>p. None) (U ''l.csv'')
        [\<lparr>Name = [233], SheetNumber = U ''1''\<rparr>]
        Map.empty Map.empty (U ''l.csv'') =
      Some [?h, [[49, 95, 195, 169], [195, 169], U ''1'']]"
    using sp
    by (simp add: generate_or_update_csv_def Let_def normalize_match_text_def strip_def
        lstrip_BOM_def mapped_values_of_def BOM_def)
      (simp add: csv_cell_def to_text_def U_def)
  have w4: "generate_or_update_csv (\<lambda>t. t) (\<lambda>p. None) (U ''l.csv'')
        [\<lparr>Name = [BOM, 32, 65], SheetNumber = U ''1''\<rparr>]
        Map.empty Map.empty (U ''l.csv'') =
      Some [?h, [[49, 95, 32, 65], [32, 65], U ''1'']]"
    using sp
    by (simp add: generate_or_update_csv_def Let_def normalize_match_text_def strip_def
        lstrip_BOM_def mapped_values_of_def)
      (simp add: csv_cell_def to_text_def U_def BOM_def)
  have id: "(\<lambda>t::ustr. t) [] = []" by simp
  have r1: "described_rows (\<lambda>t. t) [?h, [U ''2_A'', U ''A'', U ''2'']] =
      [\<lparr>PrintFileName = U ''2_A'', DrawingName = U ''A'', DrawingNumber = U ''2''\<rparr>]"
    unfolding described_rows_def list.case ledger_header_columns Let_def
    using sp
    by (simp add: described_cell_def normalize_match_text_def strip_def lstrip_BOM_def
        U_def BOM_def)
  have r2: "described_rows (\<lambda>t. t) [?h, [U ''1_A'', U ''A'', U ''1'']] =
      [\<lparr>PrintFileName = U ''1_A'', DrawingName = U ''A'', DrawingNumber = U ''1''\<rparr>]"
    unfolding described_rows_def list.case ledger_header_columns Let_def
    using sp
    by (simp add: described_cell_def normalize_match_text_def strip_def lstrip_BOM_def
        U_def BOM_def)
  have r3: "described_rows (\<lambda>t. t) [?h, [[49, 95, 195, 169], [195, 169], U ''1'']] =
      [\<lparr>PrintFileName = [49, 95, 195, 169], DrawingName = [195, 169],
        DrawingNumber = U ''1''\<rparr>]"
    unfolding described_rows_def list.case ledger_header_columns Let_def
    using sp
    by (simp add: described_cell_def normalize_match_text_def strip_def lstrip_BOM_def
        U_def BOM_def)
  have r4: "described_rows (\<lambda>t. t) [?h, [[49, 95, 32, 65], [32, 65], U ''1'']] =
      [\<lparr>PrintFileName = [49, 95, 32, 65], DrawingName = U ''A'', DrawingNumber = U ''1''\<rparr>]"
    unfolding described_rows_def list.case ledger_header_columns Let_def
    using sp
    by (simp add: described_cell_def normalize_match_text_def strip_def lstrip_BOM_def
        U_def BOM_def)
  show ?thesis
    unfolding read_print_rows_csv_rows [of "\<lambda>t. t", OF id] w1 w2 w3 w4 option.case
      r1 r2 r3 r4 n3 n4
    by simp
qed

section \<open>The extension of a path: properties\<close>

lemma rfind_Nil: "rfind c [] = - 1"
  by (simp add: rfind_def)

lemma rfind_snoc:
  "rfind c (p @ [x]) = (if x = c then int (length p) else rfind c p)"
proof -
  have same: "filter (\<lambda>i. (p @ [x]) ! i = c) (rev [0..<length p]) =
      filter (\<lambda>i. p ! i = c) (rev [0..<length p])"
    by (rule filter_cong) (simp_all add: nth_append)
  show ?thesis
    by (simp add: rfind_def same)
qed

lemma rfind_bounds: "- 1 \<le> rfind c p \<and> rfind c p < int (length p)"
  by (induction p rule: rev_induct) (simp_all add: rfind_Nil rfind_snoc)

lemma rfind_append_free:
  assumes "c \<notin> set b"
  shows "rfind c (a @ b) = rfind c a"
  using assms
proof (induction b rule: rev_induct)
  case Nil
  then show ?case by simp
next
  case (snoc x b)
  have "rfind c (a @ b @ [x]) = rfind c ((a @ b) @ [x])" by simp
  also have "\<dots> = rfind c (a @ b)" using snoc.prems by (simp only: rfind_snoc) simp
  finally show ?case using snoc by simp
qed

lemma rfind_last_occurrence:
  assumes "c \<notin> set b"
  shows "rfind c (a @ c # b) = int (length a)"
proof -
  have "rfind c (a @ c # b) = rfind c ((a @ [c]) @ b)" by simp
  also have "\<dots> = rfind c (a @ [c])" using assms by (rule rfind_append_free)
  finally show ?thesis by (simp add: rfind_snoc)
qed

lemma rfind_below:
  assumes "rfind c p < int k"
  shows "c \<notin> set (drop k p)"
  using assms
proof (induction p rule: rev_induct)
  case Nil
  then show ?case by simp
next
  case (snoc x p)
  show ?case
  proof (cases "x = c")
    case True
    with snoc.prems have "length p < k" by (simp add: rfind_snoc)
    then show ?thesis by simp
  next
    case False
    with snoc.prems have "rfind c p < int k" by (simp add: rfind_snoc)
    then have "c \<notin> set (drop k p)" by (rule snoc.IH)
    then show ?thesis using False by (auto dest!: in_set_dropD)
  qed
qed

lemma rfind_found:
  assumes "0 \<le> rfind c p"
  shows "nat (rfind c p) < length p \<and> p ! nat (rfind c p) = c"
  using assms
proof (induction p rule: rev_induct)
  case Nil
  then show ?case by (simp add: rfind_Nil)
next
  case (snoc x p)
  show ?case
  proof (cases "x = c")
    case True
    then show ?thesis by (simp add: rfind_snoc)
  next
    case False
    with snoc have "nat (rfind c p) < length p \<and> p ! nat (rfind c p) = c"
      by (simp add: rfind_snoc)
    then show ?thesis using False by (simp add: rfind_snoc nth_append)
  qed
qed

lemma sep_index:
  "nat (max (rfind 92 s) (rfind 47 s) + 1) =
     length s - length (takeWhile (\<lambda>c. \<not> is_sep c) (rev s))"
proof (induction s rule: rev_induct)
  case Nil
  then show ?case by (simp add: rfind_Nil)
next
  case (snoc x s)
  have le: "length (takeWhile (\<lambda>c. \<not> is_sep c) (rev s)) \<le> length s"
    using length_takeWhile_le [of "\<lambda>c. \<not> is_sep c" "rev s"] by simp
  show ?case
  proof (cases "is_sep x")
    case True
    have "rfind 92 s < int (length s)" "rfind 47 s < int (length s)"
      using rfind_bounds by simp_all
    then have "max (rfind 92 (s @ [x])) (rfind 47 (s @ [x])) = int (length s)"
      using True by (auto simp: rfind_snoc is_sep_def)
    then show ?thesis using True by simp
  next
    case False
    then have "max (rfind 92 (s @ [x])) (rfind 47 (s @ [x])) = max (rfind 92 s) (rfind 47 s)"
      by (auto simp: rfind_snoc is_sep_def)
    then show ?thesis using False snoc.IH le by simp
  qed
qed

lemma sep_index_ge: "- 1 \<le> max (rfind 92 s) (rfind 47 s)"
  using rfind_bounds [of 92 s] by (simp add: le_max_iff_disj)

lemma file_name_part:
  "rev (takeWhile P (rev s)) = drop (length s - length (takeWhile P (rev s))) s"
proof -
  let ?l = "length (takeWhile P (rev s))"
  have "takeWhile P (rev s) = take ?l (rev s)" by (rule takeWhile_eq_take)
  also have "\<dots> = rev (drop (length s - ?l) s)" by (rule take_rev)
  finally have "takeWhile P (rev s) = rev (drop (length s - ?l) s)" .
  from arg_cong [OF this, of rev] show ?thesis by (simp only: rev_rev_ident)
qed

lemma list_ex_indices:
  assumes "k \<le> length stem"
  shows "list_ex (\<lambda>i. (stem @ rest) ! i \<noteq> c) [k..<length stem] =
           list_ex (\<lambda>x. x \<noteq> c) (drop k stem)"
proof -
  have "list_ex (\<lambda>i. (stem @ rest) ! i \<noteq> c) [k..<length stem] =
      (\<exists>i. k \<le> i \<and> i < length stem \<and> stem ! i \<noteq> c)"
    by (auto simp: list_ex_iff nth_append)
  also have "\<dots> = (\<exists>j < length stem - k. stem ! (k + j) \<noteq> c)"
  proof
    assume "\<exists>i. k \<le> i \<and> i < length stem \<and> stem ! i \<noteq> c"
    then obtain i where i: "k \<le> i" "i < length stem" "stem ! i \<noteq> c" by blast
    then have "i - k < length stem - k \<and> stem ! (k + (i - k)) \<noteq> c" by simp
    then show "\<exists>j < length stem - k. stem ! (k + j) \<noteq> c" by blast
  next
    assume "\<exists>j < length stem - k. stem ! (k + j) \<noteq> c"
    then obtain j where "j < length stem - k" "stem ! (k + j) \<noteq> c" by blast
    then have "k \<le> k + j \<and> k + j < length stem \<and> stem ! (k + j) \<noteq> c" by simp
    then show "\<exists>i. k \<le> i \<and> i < length stem \<and> stem ! i \<noteq> c" by blast
  qed
  also have "\<dots> = list_ex (\<lambda>x. x \<noteq> c) (drop k stem)"
    using assms by (simp add: list_ex_length)
  finally show ?thesis .
qed

lemma splitext_dotted:
  assumes dots: "46 \<notin> set e" and seps: "\<forall>c\<in>set e. \<not> is_sep c"
  shows "splitext (stem @ 46 # e) =
           (if list_ex (\<lambda>c. c \<noteq> 46) (takeWhile (\<lambda>c. \<not> is_sep c) (rev stem))
            then (stem, 46 # e) else (stem @ 46 # e, []))"
proof -
  let ?p = "stem @ 46 # e"
  let ?tw = "takeWhile (\<lambda>c. \<not> is_sep c) (rev stem)"
  have dot: "rfind 46 ?p = int (length stem)"
    using dots by (rule rfind_last_occurrence)
  have no92: "92 \<notin> set (46 # e)" and no47: "47 \<notin> set (46 # e)"
    using seps by (auto simp: is_sep_def)
  have "rfind 92 ?p = rfind 92 stem" using no92 by (rule rfind_append_free)
  moreover have "rfind 47 ?p = rfind 47 stem" using no47 by (rule rfind_append_free)
  ultimately
  have sep: "max (rfind 92 ?p) (rfind 47 ?p) = max (rfind 92 stem) (rfind 47 stem)"
    by simp
  have lt: "max (rfind 92 stem) (rfind 47 stem) < int (length stem)"
    using rfind_bounds [of 92 stem] rfind_bounds [of 47 stem] by simp
  have k: "nat (max (rfind 92 stem) (rfind 47 stem) + 1) = length stem - length ?tw"
    by (rule sep_index)
  have "list_ex (\<lambda>i. ?p ! i \<noteq> 46) [length stem - length ?tw..<length stem] =
      list_ex (\<lambda>x. x \<noteq> 46) (drop (length stem - length ?tw) stem)"
    by (rule list_ex_indices) simp
  also have "\<dots> = list_ex (\<lambda>x. x \<noteq> 46) (rev ?tw)"
    by (simp only: file_name_part)
  also have "\<dots> = list_ex (\<lambda>x. x \<noteq> 46) ?tw"
    by (simp add: list_ex_iff)
  finally have ex: "list_ex (\<lambda>i. ?p ! i \<noteq> 46) [length stem - length ?tw..<length stem] =
      list_ex (\<lambda>x. x \<noteq> 46) ?tw" .
  show ?thesis
    unfolding splitext_def Let_def dot sep k nat_int ex
    using lt by simp
qed

lemma splitext_cases:
  "snd (splitext p) = [] \<or>
   (\<exists>stem e. p = stem @ 46 # e \<and> 46 \<notin> set e \<and> (\<forall>c\<in>set e. \<not> is_sep c) \<and>
      splitext p = (stem, 46 # e))"
proof (cases "snd (splitext p) = []")
  case True
  then show ?thesis by simp
next
  case False
  let ?s = "max (rfind 92 p) (rfind 47 p)"
  let ?d = "rfind 46 p"
  from False have taken: "?s < ?d" and split: "splitext p = (take (nat ?d) p, drop (nat ?d) p)"
    by (auto simp: splitext_def Let_def split: if_splits)
  have d0: "0 \<le> ?d" using taken rfind_bounds [of 92 p] by simp
  from rfind_found [OF d0] have dl: "nat ?d < length p" and dc: "p ! nat ?d = 46" by simp_all
  let ?e = "drop (Suc (nat ?d)) p"
  have p: "p = take (nat ?d) p @ 46 # ?e"
    using id_take_nth_drop [OF dl] dc by simp
  have "?d < int (Suc (nat ?d))" using d0 by simp
  then have nodot: "46 \<notin> set ?e" by (rule rfind_below)
  have "rfind 92 p < int (Suc (nat ?d))" "rfind 47 p < int (Suc (nat ?d))"
    using taken d0 by simp_all
  then have "92 \<notin> set ?e" "47 \<notin> set ?e" by (simp_all only: rfind_below not_False_eq_True)
  then have nosep: "\<forall>c\<in>set ?e. \<not> is_sep c" by (auto simp: is_sep_def)
  have "drop (nat ?d) p = 46 # ?e"
    using Cons_nth_drop_Suc [OF dl] dc by simp
  with split have "splitext p = (take (nat ?d) p, 46 # ?e)" by simp
  with p nodot nosep show ?thesis by blast
qed

lemma has_extension_splitext:
  "has_extension p ext = (ext \<noteq> [] \<and> snd (splitext p) = ext)"
proof
  assume h: "has_extension p ext"
  let ?stem = "take (length p - length ext) p"
  from h have len: "length ext \<le> length p"
    and suffix: "drop (length p - length ext) p = ext"
    and ne: "ext \<noteq> []" and hd: "hd ext = 46"
    and tl: "list_all (\<lambda>c. c \<noteq> 46 \<and> \<not> is_sep c) (tl ext)"
    and name: "list_ex (\<lambda>c. c \<noteq> 46) (takeWhile (\<lambda>c. \<not> is_sep c) (rev ?stem))"
    by (simp_all add: has_extension_def)
  from ne hd have ext: "ext = 46 # tl ext" by (cases ext) simp_all
  have p: "p = ?stem @ 46 # tl ext"
    using append_take_drop_id [of "length p - length ext" p] suffix ext by simp
  have dots: "46 \<notin> set (tl ext)" and seps: "\<forall>c\<in>set (tl ext). \<not> is_sep c"
    using tl by (auto simp: list_all_iff)
  have "splitext (?stem @ 46 # tl ext) = (?stem, 46 # tl ext)"
    using splitext_dotted [OF dots seps, of ?stem] name by simp
  then have "splitext p = (?stem, ext)" using p ext by simp
  then show "ext \<noteq> [] \<and> snd (splitext p) = ext" using ne by simp
next
  assume a: "ext \<noteq> [] \<and> snd (splitext p) = ext"
  with splitext_cases [of p] obtain stem e
    where p: "p = stem @ 46 # e" and dots: "46 \<notin> set e"
      and seps: "\<forall>c\<in>set e. \<not> is_sep c" and split: "splitext p = (stem, 46 # e)"
    by auto
  from a split have ext: "ext = 46 # e" by simp
  have name: "list_ex (\<lambda>c. c \<noteq> 46) (takeWhile (\<lambda>c. \<not> is_sep c) (rev stem))"
  proof (rule ccontr)
    assume "\<not> list_ex (\<lambda>c. c \<noteq> 46) (takeWhile (\<lambda>c. \<not> is_sep c) (rev stem))"
    then have "splitext (stem @ 46 # e) = (stem @ 46 # e, [])"
      using splitext_dotted [OF dots seps, of stem] by simp
    with split p show False by simp
  qed
  show "has_extension p ext"
    unfolding has_extension_def ext p
    using dots seps name by (auto simp: list_all_iff)
qed

lemma is_csv_path_None: "\<not> is_csv_path None"
  by (simp add: is_csv_path_def splitext_def rfind_def U_def lower_def)

lemma is_csv_path_extension:
  "is_csv_path (Some p) = (\<exists>ext. has_extension p ext \<and> lower ext = U ''.csv'')"
proof
  assume "is_csv_path (Some p)"
  then have l: "lower (snd (splitext p)) = U ''.csv''" by (simp add: is_csv_path_def)
  then have "snd (splitext p) \<noteq> []" by (auto simp: lower_def U_def)
  then have "has_extension p (snd (splitext p))" by (simp add: has_extension_splitext)
  with l show "\<exists>ext. has_extension p ext \<and> lower ext = U ''.csv''" by blast
next
  assume "\<exists>ext. has_extension p ext \<and> lower ext = U ''.csv''"
  then obtain ext where "has_extension p ext" and l: "lower ext = U ''.csv''" by blast
  then have "snd (splitext p) = ext" by (simp add: has_extension_splitext)
  with l show "is_csv_path (Some p)" by (simp add: is_csv_path_def)
qed

text \<open>
  Claim C7. \<open>generate_or_update\<close> and \<open>read_print_rows\<close> test nothing but the
  extension of the path. The test succeeds exactly for a path that is a string with an
  extension equal to \<open>.csv\<close> once lowered. For such a path both return what the CSV
  functions return for it, and no call reaches the COM layer. For every other path the
  first call is \<open>Type.GetTypeFromProgID("Excel.Application")\<close>: when the application is
  not installed, the exception \<open>Excel is not installed.\<close> is raised, the files are
  left as they were and nothing else is called; when it is, the next call is
  \<open>Activator.CreateInstance\<close>, and the outcome is that of the session with Excel.
\<close>

theorem excel_database_dispatch_on_extension:
  "(is_csv_path path \<longleftrightarrow>
      (\<exists>p ext. path = Some p \<and> has_extension p ext \<and> lower ext = U ''.csv'')) \<and>
   (\<forall>p. path = Some p \<and> is_csv_path path \<longrightarrow>
      generate_or_update nfc host fs path sheets name_map number_map force_update =
        (None, generate_or_update_csv nfc fs p sheets name_map number_map, []) \<and>
      read_print_rows nfc host fs path = (Inr (read_print_rows_csv nfc fs p), [])) \<and>
   (\<not> is_csv_path path \<and> \<not> excel_installed host \<longrightarrow>
      generate_or_update nfc host fs path sheets name_map number_map force_update =
        (Some (Exception ''Excel is not installed.''), fs,
         [GetTypeFromProgID ''Excel.Application'']) \<and>
      read_print_rows nfc host fs path =
        (Inl (Exception ''Excel is not installed.''),
         [GetTypeFromProgID ''Excel.Application''])) \<and>
   (\<not> is_csv_path path \<and> excel_installed host \<longrightarrow>
      generate_or_update nfc host fs path sheets name_map number_map force_update =
        (fst (generate_in_excel host fs path sheets name_map number_map force_update),
         fst (snd (generate_in_excel host fs path sheets name_map number_map force_update)),
         GetTypeFromProgID ''Excel.Application'' # CreateInstance #
         snd (snd (generate_in_excel host fs path sheets name_map number_map force_update))) \<and>
      read_print_rows nfc host fs path =
        (fst (read_in_excel host fs path),
         GetTypeFromProgID ''Excel.Application'' # CreateInstance #
         snd (read_in_excel host fs path)))"
proof -
  have ext: "is_csv_path path \<longleftrightarrow>
      (\<exists>p ext. path = Some p \<and> has_extension p ext \<and> lower ext = U ''.csv'')"
  proof (cases path)
    case None
    then show ?thesis using is_csv_path_None by simp
  next
    case (Some p)
    then show ?thesis using is_csv_path_extension [of p] by simp
  qed
  have csv: "\<forall>p. path = Some p \<and> is_csv_path path \<longrightarrow>
      generate_or_update nfc host fs path sheets name_map number_map force_update =
        (None, generate_or_update_csv nfc fs p sheets name_map number_map, []) \<and>
      read_print_rows nfc host fs path = (Inr (read_print_rows_csv nfc fs p), [])"
  proof (intro allI impI)
    fix p
    assume "path = Some p \<and> is_csv_path path"
    then have p: "path = Some p" and c: "is_csv_path (Some p)" by auto
    show "generate_or_update nfc host fs path sheets name_map number_map force_update =
        (None, generate_or_update_csv nfc fs p sheets name_map number_map, []) \<and>
      read_print_rows nfc host fs path = (Inr (read_print_rows_csv nfc fs p), [])"
      unfolding p by (simp add: generate_or_update_def read_print_rows_def c)
  qed
  have missing: "\<not> is_csv_path path \<and> \<not> excel_installed host \<longrightarrow>
      generate_or_update nfc host fs path sheets name_map number_map force_update =
        (Some (Exception ''Excel is not installed.''), fs,
         [GetTypeFromProgID ''Excel.Application'']) \<and>
      read_print_rows nfc host fs path =
        (Inl (Exception ''Excel is not installed.''),
         [GetTypeFromProgID ''Excel.Application''])"
    by (simp add: generate_or_update_def read_print_rows_def)
  have excel: "\<not> is_csv_path path \<and> excel_installed host \<longrightarrow>
      generate_or_update nfc host fs path sheets name_map number_map force_update =
        (fst (generate_in_excel host fs path sheets name_map number_map force_update),
         fst (snd (generate_in_excel host fs path sheets name_map number_map force_update)),
         GetTypeFromProgID ''Excel.Application'' # CreateInstance #
         snd (snd (generate_in_excel host fs path sheets name_map number_map force_update))) \<and>
      read_print_rows nfc host fs path =
        (fst (read_in_excel host fs path),
         GetTypeFromProgID ''Excel.Application'' # CreateInstance #
         snd (read_in_excel host fs path))"
    by (simp add: generate_or_update_def read_print_rows_def split_beta)
  from ext csv missing excel show ?thesis by blast
qed

text \<open>
  On a machine without Excel: the ledger \<open>out/Ledger.CSV\<close> is read by the CSV function
  and nothing is asked of the COM layer; a file named \<open>.csv\<close> has no extension, and
  reading it, like writing \<open>ledger.xlsx\<close>, asks for the application and raises.
\<close>

theorem excel_database_dispatch_on_extension_witness:
  "is_csv_path (Some (U ''out/Ledger.CSV'')) \<and>
   read_print_rows (\<lambda>t. t)
     \<lparr>excel_installed = False,
      generate_in_excel = (\<lambda>fs path sheets name_map number_map force_update. (None, fs, [])),
      read_in_excel = (\<lambda>fs path. (Inr [], []))\<rparr>
     (\<lambda>p. None) (Some (U ''out/Ledger.CSV'')) = (Inr [], []) \<and>
   \<not> is_csv_path (Some (U ''.csv'')) \<and>
   read_print_rows (\<lambda>t. t)
     \<lparr>excel_installed = False,
      generate_in_excel = (\<lambda>fs path sheets name_map number_map force_update. (None, fs, [])),
      read_in_excel = (\<lambda>fs path. (Inr [], []))\<rparr>
     (\<lambda>p. None) (Some (U ''.csv'')) =
     (Inl (Exception ''Excel is not installed.''), [GetTypeFromProgID ''Excel.Application'']) \<and>
   fst (generate_or_update (\<lambda>t. t)
     \<lparr>excel_installed = False,
      generate_in_excel = (\<lambda>fs path sheets name_map number_map force_update. (None, fs, [])),
      read_in_excel = (\<lambda>fs path. (Inr [], []))\<rparr>
     (\<lambda>p. None) (Some (U ''ledger.xlsx'')) [] Map.empty Map.empty False) =
     Some (Exception ''Excel is not installed.'') \<and>
   snd (snd (generate_or_update (\<lambda>t. t)
     \<lparr>excel_installed = False,
      generate_in_excel = (\<lambda>fs path sheets name_map number_map force_update. (None, fs, [])),
      read_in_excel = (\<lambda>fs path. (Inr [], []))\<rparr>
     (\<lambda>p. None) (Some (U ''ledger.xlsx'')) [] Map.empty Map.empty False)) =
     [GetTypeFromProgID ''Excel.Application'']"
proof -
  let ?host = "\<lparr>excel_installed = False,
      generate_in_excel =
        (\<lambda>(fs :: file_system) (path :: ustr option) (sheets :: view_sheet list)
            (name_map :: ustr \<rightharpoonup> py_value) (number_map :: ustr \<rightharpoonup> py_value)
            (force_update :: bool). (None :: py_error option, fs, [] :: com_call list)),
      read_in_excel =
        (\<lambda>(fs :: file_system) (path :: ustr option).
            (Inr [] :: py_error + ExcelPrintRow list, [] :: com_call list))\<rparr>"
  let ?fs = "\<lambda>p::ustr. None :: csv_file option"
  note ledger = excel_database_dispatch_on_extension
    [of "Some (U ''out/Ledger.CSV'')" "\<lambda>t. t" ?host ?fs "[]" Map.empty Map.empty False]
  note dotfile = excel_database_dispatch_on_extension
    [of "Some (U ''.csv'')" "\<lambda>t. t" ?host ?fs "[]" Map.empty Map.empty False]
  note workbook = excel_database_dispatch_on_extension
    [of "Some (U ''ledger.xlsx'')" "\<lambda>t. t" ?host ?fs "[]" Map.empty Map.empty False]
  have "has_extension (U ''out/Ledger.CSV'') (U ''.CSV'') \<and> lower (U ''.CSV'') = U ''.csv''"
    by (simp add: has_extension_def U_def is_sep_def lower_def lower_char_def)
  with ledger have a: "is_csv_path (Some (U ''out/Ledger.CSV''))" by blast
  have none: "read_print_rows_csv (\<lambda>t. t) ?fs (U ''out/Ledger.CSV'') = []"
    by (simp add: read_print_rows_csv_def)
  from ledger a have b: "read_print_rows (\<lambda>t. t) ?host ?fs (Some (U ''out/Ledger.CSV'')) =
      (Inr [], [])"
    by (simp add: none)
  have c: "\<not> is_csv_path (Some (U ''.csv''))"
    by (simp add: is_csv_path_def splitext_def rfind_def U_def lower_def upt_rec)
  have d: "\<not> is_csv_path (Some (U ''ledger.xlsx''))"
    by (simp add: is_csv_path_def splitext_def rfind_def U_def lower_def lower_char_def upt_rec)
  from dotfile c have e: "read_print_rows (\<lambda>t. t) ?host ?fs (Some (U ''.csv'')) =
     (Inl (Exception ''Excel is not installed.''), [GetTypeFromProgID ''Excel.Application''])"
    by simp
  from workbook d have f: "generate_or_update (\<lambda>t. t) ?host ?fs (Some (U ''ledger.xlsx''))
      [] Map.empty Map.empty False =
     (Some (Exception ''Excel is not installed.''), ?fs,
      [GetTypeFromProgID ''Excel.Application''])"
    by simp
  show ?thesis using a b c e unfolding f by simp
qed

end
